theory Spec2Isabelle
  imports Main "HOL-Library.Word" "HOL-Library.Char_ord" "HOL-Library.List_Lexorder"
begin

section \<open>Common types\<close>

text \<open>
  File numbers, log numbers, sequence numbers and microsecond timestamps are
  \<^verbatim>\<open>uint64_t\<close> in the sources: 64-bit words whose arithmetic wraps around.
\<close>

type_synonym u64 = "64 word"

text \<open>
  The internal key comparator is an external collaborator.  Keys are taken from an
  arbitrary linear order; \<open>Compare\<close> is the three-way comparison the sources call
  (\<^verbatim>\<open>icmp_.Compare(a, b)\<close>): negative, zero or positive.
\<close>

definition Compare :: "'k::linorder \<Rightarrow> 'k \<Rightarrow> int" where
  "Compare a b = (if a < b then - 1 else if a = b then 0 else 1)"

text \<open>A \<^verbatim>\<open>FileMetaData*\<close> is an address into the store of file metadata.\<close>

type_synonym fptr = nat

text \<open>
  \<^verbatim>\<open>FileSlice\<close>: the fields the sources read (\<^verbatim>\<open>parent_file_meta\<close>,
  \<^verbatim>\<open>smallest\<close>, \<^verbatim>\<open>largest\<close>, \<^verbatim>\<open>is_contain_smallest\<close>,
  \<^verbatim>\<open>output_file_number\<close>).
\<close>

record 'k FileSlice =
  parent_file_meta :: fptr
  slice_smallest :: 'k
  slice_largest :: 'k
  is_contain_smallest :: bool
  output_file_number :: u64

section \<open>Two-phase-commit log retention (db/db\_impl\_files.cc)\<close>

record ColumnFamilyData =
  IsDropped :: bool
  imm_GetMinLogContainingPrepSection :: u64
  mem_GetMinLogContainingPrepSection :: u64

text \<open>
  The state of \<^verbatim>\<open>DBImpl\<close> that the two-phase-commit functions read and write:
  \<^verbatim>\<open>allow_2pc()\<close>, the column families of the version set with the values their
  memtables report, \<^verbatim>\<open>versions_->MinLogNumber()\<close>, the min-heap
  \<^verbatim>\<open>min_log_with_prep_\<close> (a \<^verbatim>\<open>std::priority_queue\<close> with \<^verbatim>\<open>std::greater\<close>,
  kept here as an ascending list: \<^verbatim>\<open>top\<close> is the head, \<^verbatim>\<open>pop\<close> drops it,
  \<^verbatim>\<open>push\<close> inserts in order) and the map \<^verbatim>\<open>prepared_section_completed_\<close>.
\<close>

record PrepState =
  allow_2pc :: bool
  GetColumnFamilySet :: "ColumnFamilyData list"
  MinLogNumber :: u64
  min_log_with_prep :: "u64 list"
  prepared_section_completed :: "u64 \<rightharpoonup> u64"

definition prep_log_min :: "u64 \<Rightarrow> u64 \<Rightarrow> u64" where
  "prep_log_min min_log log = (if log > 0 \<and> (min_log = 0 \<or> log < min_log) then log else min_log)"

definition prep_log_cfd :: "u64 \<Rightarrow> ColumnFamilyData \<Rightarrow> u64" where
  "prep_log_cfd min_log loop_cfd =
     (if IsDropped loop_cfd then min_log
      else prep_log_min (prep_log_min min_log (imm_GetMinLogContainingPrepSection loop_cfd))
             (mem_GetMinLogContainingPrepSection loop_cfd))"

definition FindMinPrepLogReferencedByMemTable :: "'a PrepState_scheme \<Rightarrow> u64" where
  "FindMinPrepLogReferencedByMemTable db =
     (if \<not> allow_2pc db then 0 else foldl prep_log_cfd 0 (GetColumnFamilySet db))"

text \<open>
  The ways in which a function of these sources stops without returning: a failed
  \<^verbatim>\<open>assert\<close>, behaviour the language leaves undefined, \<^verbatim>\<open>abort()\<close>, an
  exception \<^verbatim>\<open>std::out_of_range\<close>, and a wait on a condition variable that only
  another thread can end.  Assertions are compiled in unless \<^verbatim>\<open>NDEBUG\<close> is defined;
  the functions that assert take the flag \<open>ndebug\<close> as their first argument.
\<close>

datatype failure = AssertionFailed | UndefinedBehavior | Aborted | OutOfRange | WaitsForLogSync

definition MarkLogAsHavingPrepSectionFlushed ::
    "bool \<Rightarrow> u64 \<Rightarrow> 'a PrepState_scheme \<Rightarrow> failure + 'a PrepState_scheme" where
  "MarkLogAsHavingPrepSectionFlushed ndebug log db =
     (if \<not> ndebug \<and> log = 0 then Inl AssertionFailed
      else case prepared_section_completed db log of
             None \<Rightarrow> Inl (if ndebug then UndefinedBehavior else AssertionFailed)
           | Some c \<Rightarrow> Inr (db\<lparr>prepared_section_completed := (prepared_section_completed db)(log \<mapsto> c + 1)\<rparr>))"

definition MarkLogAsContainingPrepSection ::
    "bool \<Rightarrow> u64 \<Rightarrow> 'a PrepState_scheme \<Rightarrow> failure + 'a PrepState_scheme" where
  "MarkLogAsContainingPrepSection ndebug log db =
     (if \<not> ndebug \<and> log = 0 then Inl AssertionFailed
      else Inr (db\<lparr>min_log_with_prep := insort log (min_log_with_prep db),
                  prepared_section_completed :=
                    (case prepared_section_completed db log of
                       None \<Rightarrow> (prepared_section_completed db)(log \<mapsto> 0)
                     | Some c \<Rightarrow> prepared_section_completed db)\<rparr>))"

text \<open>
  The loop of \<^verbatim>\<open>FindMinLogContainingOutstandingPrep\<close>: each round either pops the
  top of the heap (and decrements its completion count) or stops with the top as answer.
\<close>

fun prep_heap_loop :: "u64 list \<Rightarrow> (u64 \<rightharpoonup> u64) \<Rightarrow> u64 \<times> u64 list \<times> (u64 \<rightharpoonup> u64)" where
  "prep_heap_loop [] completed = (0, [], completed)"
| "prep_heap_loop (min_log # rest) completed =
     (case completed min_log of
        None \<Rightarrow> (min_log, min_log # rest, completed)
      | Some c \<Rightarrow>
          if c > 0 then prep_heap_loop rest (completed(min_log \<mapsto> c - 1))
          else (min_log, min_log # rest, completed))"

definition FindMinLogContainingOutstandingPrep ::
    "'a PrepState_scheme \<Rightarrow> u64 \<times> 'a PrepState_scheme" where
  "FindMinLogContainingOutstandingPrep db =
     (if \<not> allow_2pc db then (0, db)
      else case prep_heap_loop (min_log_with_prep db) (prepared_section_completed db) of
             (min_log, heap, completed) \<Rightarrow>
               (min_log, db\<lparr>min_log_with_prep := heap, prepared_section_completed := completed\<rparr>))"

definition MinLogNumberToKeep :: "'a PrepState_scheme \<Rightarrow> u64 \<times> 'a PrepState_scheme" where
  "MinLogNumberToKeep db =
     (let log_number = MinLogNumber db in
      if allow_2pc db then
        (case FindMinLogContainingOutstandingPrep db of
           (min_log_in_prep_heap, db1) \<Rightarrow>
             let log_number =
                   (if min_log_in_prep_heap \<noteq> 0 \<and> min_log_in_prep_heap < log_number
                    then min_log_in_prep_heap else log_number);
                 min_log_refed_by_mem = FindMinPrepLogReferencedByMemTable db1;
                 log_number =
                   (if min_log_refed_by_mem \<noteq> 0 \<and> min_log_refed_by_mem < log_number
                    then min_log_refed_by_mem else log_number)
             in (log_number, db1))
      else (log_number, db))"

text \<open>Scenario S6 of the specification.\<close>

definition S6_db :: PrepState where
  "S6_db = \<lparr>allow_2pc = True,
            GetColumnFamilySet = [\<lparr>IsDropped = False,
                                   imm_GetMinLogContainingPrepSection = 75,
                                   mem_GetMinLogContainingPrepSection = 90\<rparr>],
            MinLogNumber = 100,
            min_log_with_prep = [70, 80],
            prepared_section_completed = [70 \<mapsto> 1, 80 \<mapsto> 0]\<rparr>"

section \<open>The file-slice iterator (table/file\_slice\_iterator.cc)\<close>

datatype Status = Status_OK | Status_NotSupported | Status_Corruption | Status_IOError

text \<open>
  Modelled from the spec: the wrapped base file iterator (\<^verbatim>\<open>InternalIterator\<close>, whose
  implementation is not part of these sources).  It is a cursor over the entries of the
  file: \<^verbatim>\<open>Valid\<close> holds while the cursor is on an entry, \<^verbatim>\<open>Seek(target)\<close> moves to the
  first entry whose key is at or after the target, \<^verbatim>\<open>Next\<close> and \<^verbatim>\<open>Prev\<close> move by one
  entry, \<^verbatim>\<open>SeekForPrev(target)\<close> moves to the last entry whose key is at or before the
  target.  A cursor at \<open>length entries\<close> or beyond is not valid.  The iterator carries
  a status of its own.
\<close>

record ('k, 'v) InternalIterator =
  entries :: "('k \<times> 'v) list"
  pos :: nat
  iter_status :: Status

definition iter_Valid :: "('k, 'v) InternalIterator \<Rightarrow> bool" where
  "iter_Valid it = (pos it < length (entries it))"

definition iter_key :: "('k, 'v) InternalIterator \<Rightarrow> 'k" where
  "iter_key it = fst (entries it ! pos it)"

definition iter_value :: "('k, 'v) InternalIterator \<Rightarrow> 'v" where
  "iter_value it = snd (entries it ! pos it)"

fun first_at_or_after :: "('k::linorder \<times> 'v) list \<Rightarrow> 'k \<Rightarrow> nat" where
  "first_at_or_after [] target = 0"
| "first_at_or_after (e # es) target =
     (if Compare (fst e) target \<ge> 0 then 0 else Suc (first_at_or_after es target))"

fun last_at_or_before :: "('k::linorder \<times> 'v) list \<Rightarrow> 'k \<Rightarrow> nat option" where
  "last_at_or_before [] target = None"
| "last_at_or_before (e # es) target =
     (case last_at_or_before es target of
        Some i \<Rightarrow> Some (Suc i)
      | None \<Rightarrow> if Compare (fst e) target \<le> 0 then Some 0 else None)"

definition iter_Seek :: "'k::linorder \<Rightarrow> ('k, 'v) InternalIterator \<Rightarrow> ('k, 'v) InternalIterator" where
  "iter_Seek target it = it\<lparr>pos := first_at_or_after (entries it) target\<rparr>"

definition iter_SeekForPrev ::
    "'k::linorder \<Rightarrow> ('k, 'v) InternalIterator \<Rightarrow> ('k, 'v) InternalIterator" where
  "iter_SeekForPrev target it =
     it\<lparr>pos := (case last_at_or_before (entries it) target of
                  Some i \<Rightarrow> i | None \<Rightarrow> length (entries it))\<rparr>"

definition iter_Next :: "('k, 'v) InternalIterator \<Rightarrow> ('k, 'v) InternalIterator" where
  "iter_Next it = it\<lparr>pos := Suc (pos it)\<rparr>"

definition iter_Prev :: "('k, 'v) InternalIterator \<Rightarrow> ('k, 'v) InternalIterator" where
  "iter_Prev it = it\<lparr>pos := (if pos it = 0 then length (entries it) else pos it - 1)\<rparr>"

text \<open>
  \<^verbatim>\<open>FileSliceIterator\<close>: the fields \<^verbatim>\<open>file_iter_\<close> and \<^verbatim>\<open>file_slice_\<close>; the
  comparator \<^verbatim>\<open>icmp_\<close> is the order of the key type.
\<close>

record ('k, 'v) FileSliceIterator =
  file_iter :: "('k, 'v) InternalIterator"
  file_slice :: "'k FileSlice"

definition FileSliceIterator_Valid :: "('k::linorder, 'v) FileSliceIterator \<Rightarrow> bool" where
  "FileSliceIterator_Valid it =
     (if \<not> iter_Valid (file_iter it) then False
      else let key = iter_key (file_iter it);
               scmp = Compare key (slice_smallest (file_slice it))
           in if scmp < 0 \<or> (scmp = 0 \<and> \<not> is_contain_smallest (file_slice it)) then False
              else if Compare key (slice_largest (file_slice it)) > 0 then False
              else True)"

text \<open>\<^verbatim>\<open>key()\<close> and \<^verbatim>\<open>value()\<close> assert \<^verbatim>\<open>Valid()\<close>; the flag is \<^verbatim>\<open>NDEBUG\<close>.\<close>

definition FileSliceIterator_key :: "bool \<Rightarrow> ('k::linorder, 'v) FileSliceIterator \<Rightarrow> failure + 'k" where
  "FileSliceIterator_key ndebug it =
     (if \<not> ndebug \<and> \<not> FileSliceIterator_Valid it then Inl AssertionFailed
      else if \<not> iter_Valid (file_iter it) then Inl UndefinedBehavior
      else Inr (iter_key (file_iter it)))"

definition FileSliceIterator_value :: "bool \<Rightarrow> ('k::linorder, 'v) FileSliceIterator \<Rightarrow> failure + 'v" where
  "FileSliceIterator_value ndebug it =
     (if \<not> ndebug \<and> \<not> FileSliceIterator_Valid it then Inl AssertionFailed
      else if \<not> iter_Valid (file_iter it) then Inl UndefinedBehavior
      else Inr (iter_value (file_iter it)))"

text \<open>
  \<^verbatim>\<open>Next()\<close>: the byte counter \<^verbatim>\<open>TwoPCStatic::compaction_input_size\<close> it bumps is a
  process-wide statistic outside the iterator and is left out; the assertion that keys
  strictly increase is kept.
\<close>

definition FileSliceIterator_Next ::
    "bool \<Rightarrow> ('k::linorder, 'v) FileSliceIterator \<Rightarrow> failure + ('k, 'v) FileSliceIterator" where
  "FileSliceIterator_Next ndebug it =
     (if FileSliceIterator_Valid it then
        let pre_key = iter_key (file_iter it);
            it' = it\<lparr>file_iter := iter_Next (file_iter it)\<rparr>
        in if FileSliceIterator_Valid it' \<and> \<not> ndebug
              \<and> \<not> Compare (iter_key (file_iter it')) pre_key > 0
           then Inl AssertionFailed else Inr it'
      else Inr it)"

definition FileSliceIterator_Prev :: "('k::linorder, 'v) FileSliceIterator \<Rightarrow> ('k, 'v) FileSliceIterator" where
  "FileSliceIterator_Prev it =
     (if FileSliceIterator_Valid it then it\<lparr>file_iter := iter_Prev (file_iter it)\<rparr> else it)"

definition FileSliceIterator_status :: "('k, 'v) FileSliceIterator \<Rightarrow> Status" where
  "FileSliceIterator_status it = Status_OK"

definition FileSliceIterator_Seek ::
    "'k::linorder \<Rightarrow> ('k, 'v) FileSliceIterator \<Rightarrow> ('k, 'v) FileSliceIterator" where
  "FileSliceIterator_Seek target it = it\<lparr>file_iter := iter_Seek target (file_iter it)\<rparr>"

definition FileSliceIterator_SeekToFirst ::
    "('k::linorder, 'v) FileSliceIterator \<Rightarrow> ('k, 'v) FileSliceIterator" where
  "FileSliceIterator_SeekToFirst it =
     (let fi = iter_Seek (slice_smallest (file_slice it)) (file_iter it)
      in if \<not> is_contain_smallest (file_slice it) \<and> iter_Valid fi
            \<and> Compare (iter_key fi) (slice_smallest (file_slice it)) = 0
         then it\<lparr>file_iter := iter_Next fi\<rparr>
         else it\<lparr>file_iter := fi\<rparr>)"

definition FileSliceIterator_SeekToLast ::
    "('k::linorder, 'v) FileSliceIterator \<Rightarrow> ('k, 'v) FileSliceIterator" where
  "FileSliceIterator_SeekToLast it =
     it\<lparr>file_iter := iter_Seek (slice_largest (file_slice it)) (file_iter it)\<rparr>"

definition FileSliceIterator_SeekForPrev ::
    "'k::linorder \<Rightarrow> ('k, 'v) FileSliceIterator \<Rightarrow> ('k, 'v) FileSliceIterator" where
  "FileSliceIterator_SeekForPrev target it =
     it\<lparr>file_iter := iter_SeekForPrev target (file_iter it)\<rparr>"

definition FileSliceIterator_GetProperty :: "('k, 'v) FileSliceIterator \<Rightarrow> string \<Rightarrow> Status" where
  "FileSliceIterator_GetProperty it prop_name = Status_NotSupported"

text \<open>The constructor stores its arguments and calls \<^verbatim>\<open>SeekToFirst()\<close>.\<close>

definition FileSliceIterator_new ::
    "'k FileSlice \<Rightarrow> ('k::linorder, 'v) InternalIterator \<Rightarrow> ('k, 'v) FileSliceIterator" where
  "FileSliceIterator_new fs fi =
     FileSliceIterator_SeekToFirst \<lparr>file_iter = fi, file_slice = fs\<rparr>"


section \<open>Finding and purging obsolete files (db/db\_impl\_files.cc)\<close>

datatype FileType =
  kLogFile | kDBLockFile | kTableFile | kDescriptorFile | kCurrentFile | kTempFile
  | kInfoLogFile | kMetaDatabase | kIdentityFile | kOptionsFile | kBlobFile

record CandidateFileInfo =
  file_name :: string
  path_id :: nat

record FileDescriptor =
  fd_number :: u64
  fd_path_id :: nat

text \<open>
  \<^verbatim>\<open>JobContext\<close>.  An entry of \<^verbatim>\<open>sst_delete_files\<close> is a \<^verbatim>\<open>FileMetaData*\<close>
  owned by the job; what the purge reads of it is its descriptor and its
  \<^verbatim>\<open>table_reader_handle\<close> (absent when null).
\<close>

record JobContext =
  job_id :: int
  full_scan_candidate_files :: "CandidateFileInfo list"
  sst_live :: "FileDescriptor list"
  sst_delete_files :: "(FileDescriptor \<times> nat option) list"
  log_delete_files :: "u64 list"
  log_recycle_files :: "u64 list"
  manifest_delete_files :: "string list"
  logs_to_free :: "nat list"
  manifest_file_number :: u64
  pending_manifest_file_number :: u64
  log_number :: u64
  prev_log_number :: u64
  min_pending_output :: u64
  prev_total_log_size :: u64
  num_alive_log_files :: nat
  size_log_to_delete :: u64

record ImmutableDBOptions =
  db_paths :: "string list"
  wal_dir :: string
  db_log_dir :: string
  recycle_log_file_num :: nat
  keep_log_file_num :: nat
  wal_ttl_seconds :: u64
  wal_size_limit_mb :: u64

record LogFileNumberSize =
  lf_number :: u64
  lf_size :: u64

record LogWriterNumber =
  lw_number :: u64
  getting_synced :: bool
  lw_writer :: nat

text \<open>
  \<^verbatim>\<open>DBImpl\<close>, as far as these functions touch it.  The version set is outside
  these sources: the record holds what its accessors return, and its two collecting
  calls are parameters (\<open>vs_GetObsoleteFiles\<close> maps the job's two vectors and
  \<^verbatim>\<open>min_pending_output\<close> to the vectors after the call, \<open>vs_AddLiveFiles\<close> maps
  \<^verbatim>\<open>sst_live\<close> to its value after the call).  \<^verbatim>\<open>pending_outputs_\<close> is kept in
  iteration order, so that \<^verbatim>\<open>*pending_outputs_.begin()\<close> is its head.
\<close>

record DBImpl = PrepState +
  dbname :: string
  immutable_db_options :: ImmutableDBOptions
  delete_obsolete_files_period_micros :: u64
  vs_GetObsoleteFiles ::
    "(FileDescriptor \<times> nat option) list \<Rightarrow> string list \<Rightarrow> u64
       \<Rightarrow> (FileDescriptor \<times> nat option) list \<times> string list"
  vs_AddLiveFiles :: "FileDescriptor list \<Rightarrow> FileDescriptor list"
  vs_manifest_file_number :: u64
  vs_pending_manifest_file_number :: u64
  vs_prev_log_number :: u64
  disable_delete_obsolete_files :: int
  delete_obsolete_files_last_run :: u64
  pending_outputs :: "u64 list"
  alive_log_files :: "LogFileNumberSize list"
  logs :: "LogWriterNumber list"
  db_logs_to_free :: "nat list"
  db_log_recycle_files :: "u64 list"
  total_log_size :: u64

record Env =
  NowMicros :: u64
  GetChildren :: "string \<Rightarrow> string list"

text \<open>
  Lines 152--168 of \<^verbatim>\<open>FindObsoleteFiles\<close>: the local \<^verbatim>\<open>doing_the_full_scan\<close> and
  the update of \<^verbatim>\<open>delete_obsolete_files_last_run_\<close>.  The sum is a 64-bit sum.
\<close>

definition doing_the_full_scan :: "Env \<Rightarrow> DBImpl \<Rightarrow> bool \<Rightarrow> bool \<Rightarrow> bool \<times> DBImpl" where
  "doing_the_full_scan env db force no_full_scan =
     (if no_full_scan then (False, db)
      else if force \<or> delete_obsolete_files_period_micros db = 0 then (True, db)
      else let now_micros = NowMicros env in
           if delete_obsolete_files_last_run db + delete_obsolete_files_period_micros db
                < now_micros
           then (True, db\<lparr>delete_obsolete_files_last_run := now_micros\<rparr>)
           else (False, db))"

text \<open>Lines 175--196: the values captured under the mutex.\<close>

definition collect_state :: "DBImpl \<Rightarrow> JobContext \<Rightarrow> DBImpl \<times> JobContext" where
  "collect_state db job_context =
     (let mpo = (case pending_outputs db of [] \<Rightarrow> - 1 | n # _ \<Rightarrow> n);
          obsolete = vs_GetObsoleteFiles db (sst_delete_files job_context)
                       (manifest_delete_files job_context) mpo
      in case MinLogNumberToKeep db of
           (keep_log, db1) \<Rightarrow>
             (db1,
              job_context\<lparr>min_pending_output := mpo,
                           sst_delete_files := fst obsolete,
                           manifest_delete_files := snd obsolete,
                           manifest_file_number := vs_manifest_file_number db,
                           pending_manifest_file_number := vs_pending_manifest_file_number db,
                           log_number := keep_log,
                           prev_log_number := vs_prev_log_number db,
                           sst_live := vs_AddLiveFiles db (sst_live job_context)\<rparr>))"

text \<open>Lines 198--230: the directory listings of a full scan.\<close>

definition scan_db_paths :: "Env \<Rightarrow> string list \<Rightarrow> CandidateFileInfo list" where
  "scan_db_paths env paths =
     concat (map (\<lambda>(pid, dir). map (\<lambda>file. \<lparr>file_name = ''/'' @ file, path_id = pid\<rparr>)
                                    (GetChildren env dir))
                 (zip [0 ..< length paths] paths))"

definition full_scan :: "Env \<Rightarrow> DBImpl \<Rightarrow> CandidateFileInfo list" where
  "full_scan env db =
     (let opts = immutable_db_options db in
      scan_db_paths env (db_paths opts)
      @ (if wal_dir opts \<noteq> dbname db
         then map (\<lambda>log_file. \<lparr>file_name = log_file, path_id = 0\<rparr>) (GetChildren env (wal_dir opts))
         else [])
      @ (if db_log_dir opts \<noteq> [] \<and> db_log_dir opts \<noteq> dbname db
         then map (\<lambda>log_file. \<lparr>file_name = log_file, path_id = 0\<rparr>)
                (GetChildren env (db_log_dir opts))
         else []))"

text \<open>
  Lines 239--266: the loop over \<^verbatim>\<open>alive_log_files_\<close>.  The state it changes is the
  deque itself, \<^verbatim>\<open>log_recycle_files\<close>, \<^verbatim>\<open>total_log_size_\<close> and the job context.
  When the deque runs empty the assertion fails in a debug build; a release build goes
  on to read \<^verbatim>\<open>begin()\<close> of an empty deque.
\<close>

fun alive_log_loop ::
    "bool \<Rightarrow> nat \<Rightarrow> u64 \<Rightarrow> nat \<Rightarrow> LogFileNumberSize list \<Rightarrow> u64 list \<times> u64 \<times> JobContext
       \<Rightarrow> failure option \<times> LogFileNumberSize list \<times> u64 list \<times> u64 \<times> JobContext" where
  "alive_log_loop ndebug recycle_num min_log_number n_alive [] st =
     (Some UndefinedBehavior, [], st)"
| "alive_log_loop ndebug recycle_num min_log_number n_alive (earliest # rest)
       (recycle, total_size, job_context) =
     (if lf_number earliest < min_log_number then
        let (recycle1, jc1) =
              (if recycle_num > length recycle
               then (recycle @ [lf_number earliest], job_context)
               else (recycle, job_context\<lparr>log_delete_files :=
                                            log_delete_files job_context @ [lf_number earliest]\<rparr>));
            jc2 = (if size_log_to_delete jc1 = 0
                   then jc1\<lparr>prev_total_log_size := total_size, num_alive_log_files := n_alive\<rparr>
                   else jc1);
            jc3 = jc2\<lparr>size_log_to_delete := size_log_to_delete jc2 + lf_size earliest\<rparr>;
            total_size1 = total_size - lf_size earliest
        in if rest = [] \<and> \<not> ndebug then (Some AssertionFailed, rest, recycle1, total_size1, jc3)
           else alive_log_loop ndebug recycle_num min_log_number n_alive rest
                  (recycle1, total_size1, jc3)
      else (None, earliest # rest, recycle, total_size, job_context))"

text \<open>
  Lines 267--279: the loop over \<^verbatim>\<open>logs_\<close>.  On a log that is being synced the thread
  waits on \<^verbatim>\<open>log_sync_cv_\<close>; what happens next depends on other threads, so the model
  stops there with \<open>WaitsForLogSync\<close>.
\<close>

fun logs_loop ::
    "u64 \<Rightarrow> LogWriterNumber list \<Rightarrow> nat list \<Rightarrow> failure option \<times> LogWriterNumber list \<times> nat list" where
  "logs_loop min_log_number [] to_free = (None, [], to_free)"
| "logs_loop min_log_number (log # rest) to_free =
     (if lw_number log < min_log_number then
        if getting_synced log then (Some WaitsForLogSync, log # rest, to_free)
        else logs_loop min_log_number rest (to_free @ [lw_writer log])
      else (None, log # rest, to_free))"

text \<open>Lines 233--289: both loops, then the hand-over of the writers and the recycle list.\<close>

definition reap_logs :: "bool \<Rightarrow> DBImpl \<Rightarrow> JobContext \<Rightarrow> failure option \<times> DBImpl \<times> JobContext" where
  "reap_logs ndebug db job_context =
     (let finish = (\<lambda>db jc.
            if \<not> ndebug \<and> logs_to_free jc \<noteq> [] then (Some AssertionFailed, db, jc)
            else (None, db\<lparr>db_logs_to_free := []\<rparr>,
                  jc\<lparr>logs_to_free := db_logs_to_free db,
                     log_recycle_files := db_log_recycle_files db\<rparr>))
      in if alive_log_files db \<noteq> [] \<and> logs db \<noteq> [] then
           (case alive_log_loop ndebug (recycle_log_file_num (immutable_db_options db))
                   (log_number job_context) (length (alive_log_files db)) (alive_log_files db)
                   (db_log_recycle_files db, total_log_size db, job_context) of
              (r1, alive, recycle, total_size1, jc1) \<Rightarrow>
                let db1 = db\<lparr>alive_log_files := alive, db_log_recycle_files := recycle,
                             total_log_size := total_size1\<rparr>
                in (case r1 of
                      Some e \<Rightarrow> (Some e, db1, jc1)
                    | None \<Rightarrow>
                        (case logs_loop (log_number job_context) (logs db1) (db_logs_to_free db1) of
                           (r2, ls, to_free) \<Rightarrow>
                             let db2 = db1\<lparr>logs := ls, db_logs_to_free := to_free\<rparr>
                             in (case r2 of
                                   Some e \<Rightarrow> (Some e, db2, jc1)
                                 | None \<Rightarrow>
                                     if \<not> ndebug \<and> ls = [] then (Some AssertionFailed, db2, jc1)
                                     else finish db2 jc1))))
         else finish db job_context)"

text \<open>
  \<^verbatim>\<open>FindObsoleteFiles\<close>.  The result is the state of the database and of the job
  context when the function returns (\<open>None\<close>) or stops (\<open>Some\<close> failure).  The mutex
  assertion is not modelled.
\<close>

definition FindObsoleteFiles ::
    "bool \<Rightarrow> Env \<Rightarrow> DBImpl \<Rightarrow> JobContext \<Rightarrow> bool \<Rightarrow> bool \<Rightarrow> failure option \<times> DBImpl \<times> JobContext" where
  "FindObsoleteFiles ndebug env db job_context force no_full_scan =
     (if disable_delete_obsolete_files db > 0 then (None, db, job_context)
      else case doing_the_full_scan env db force no_full_scan of
             (scan, db1) \<Rightarrow>
               (case collect_state db1 job_context of
                  (db2, jc2) \<Rightarrow>
                    let jc3 = (if scan
                               then jc2\<lparr>full_scan_candidate_files :=
                                          full_scan_candidate_files jc2 @ full_scan env db2\<rparr>
                               else jc2)
                    in reap_logs ndebug db2 jc3))"


subsection \<open>PurgeObsoleteFiles\<close>

text \<open>
  The file-name helpers (\<^verbatim>\<open>ParseFileName\<close>, \<^verbatim>\<open>InfoLogPrefix\<close>,
  \<^verbatim>\<open>MakeTableFileName\<close>, \<^verbatim>\<open>LogFileName\<close>, \<^verbatim>\<open>TableFileName\<close>, the constant
  \<^verbatim>\<open>kOptionsFileNamePrefix\<close>) and \<^verbatim>\<open>JobContext::HaveSomethingToDelete\<close> are
  declared outside these sources; they are parameters of the model.
\<close>

record FileNames =
  ParseFileName :: "string \<Rightarrow> string \<Rightarrow> (u64 \<times> FileType) option"
  InfoLogPrefix :: "bool \<Rightarrow> string \<Rightarrow> string"
  MakeTableFileName :: "string \<Rightarrow> u64 \<Rightarrow> string"
  LogFileName :: "string \<Rightarrow> u64 \<Rightarrow> string"
  TableFileName :: "string list \<Rightarrow> u64 \<Rightarrow> nat \<Rightarrow> string"
  kOptionsFileNamePrefix :: string
  HaveSomethingToDelete :: "JobContext \<Rightarrow> bool"

text \<open>What the purge does to its collaborators, in the order it does it.\<close>

datatype action =
    TableCacheRelease nat
  | TableCacheEvict u64
  | ArchiveWALFile string u64
  | SchedulePendingPurge string FileType u64 nat int
  | DeleteSSTFile string nat
  | EnvDeleteFile string
  | LogAndNotifyTableFileDeletion int u64 string
  | PurgeObsoleteWALFiles
  | LogFlush

definition CompareCandidateFile :: "CandidateFileInfo \<Rightarrow> CandidateFileInfo \<Rightarrow> bool" where
  "CompareCandidateFile first second =
     (if file_name first > file_name second then True
      else if file_name first < file_name second then False
      else path_id first > path_id second)"

text \<open>
  \<^verbatim>\<open>std::sort\<close> with a comparator.  The comparators of these sources order any two
  distinct elements they are given, so the sorted sequence is determined; it is computed
  here by insertion.
\<close>

fun insert_sorted :: "('a \<Rightarrow> 'a \<Rightarrow> bool) \<Rightarrow> 'a \<Rightarrow> 'a list \<Rightarrow> 'a list" where
  "insert_sorted lt x [] = [x]"
| "insert_sorted lt x (y # ys) = (if lt x y then x # y # ys else y # insert_sorted lt x ys)"

definition std_sort :: "('a \<Rightarrow> 'a \<Rightarrow> bool) \<Rightarrow> 'a list \<Rightarrow> 'a list" where
  "std_sort lt xs = foldr (insert_sorted lt) xs []"

text \<open>\<^verbatim>\<open>std::string::find(pattern) != npos\<close>.\<close>

fun starts_with :: "string \<Rightarrow> string \<Rightarrow> bool" where
  "starts_with cs [] = True"
| "starts_with [] (p # ps) = False"
| "starts_with (c # cs) (p # ps) = (c = p \<and> starts_with cs ps)"

fun str_contains :: "string \<Rightarrow> string \<Rightarrow> bool" where
  "str_contains [] pat = (pat = [])"
| "str_contains (c # cs) pat = (starts_with (c # cs) pat \<or> str_contains cs pat)"

text \<open>
  \<^verbatim>\<open>DeleteObsoleteFileImpl\<close>: the deletion, and the notification for a table file.
  The status of the deletion only selects a log line.
\<close>

definition DeleteObsoleteFileImpl :: "int \<Rightarrow> string \<Rightarrow> FileType \<Rightarrow> u64 \<Rightarrow> nat \<Rightarrow> action list" where
  "DeleteObsoleteFileImpl job fname type number pid =
     (if type = kTableFile then [DeleteSSTFile fname pid] else [EnvDeleteFile fname])
     @ (if type = kTableFile then [LogAndNotifyTableFileDeletion job number fname] else [])"

definition sst_live_map :: "JobContext \<Rightarrow> u64 \<rightharpoonup> FileDescriptor" where
  "sst_live_map state = map_of (map (\<lambda>fd. (fd_number fd, fd)) (rev (sst_live state)))"

text \<open>Lines 365--397: the candidates, sorted and without adjacent duplicates.\<close>

definition candidate_files :: "FileNames \<Rightarrow> JobContext \<Rightarrow> CandidateFileInfo list" where
  "candidate_files fn state =
     remdups_adj (std_sort CompareCandidateFile
       (full_scan_candidate_files state
        @ map (\<lambda>(fd, h). \<lparr>file_name = MakeTableFileName fn [] (fd_number fd),
                           path_id = fd_path_id fd\<rparr>) (sst_delete_files state)
        @ map (\<lambda>file_num. \<lparr>file_name = LogFileName fn [] file_num, path_id = 0\<rparr>)
            (filter (\<lambda>file_num. file_num > 0) (log_delete_files state))
        @ map (\<lambda>filename. \<lparr>file_name = filename, path_id = 0\<rparr>) (manifest_delete_files state)))"

text \<open>Lines 421--467: the \<^verbatim>\<open>switch\<close> that sets \<^verbatim>\<open>keep\<close>.\<close>

definition keep_file :: "FileNames \<Rightarrow> JobContext \<Rightarrow> string \<Rightarrow> u64 \<Rightarrow> FileType \<Rightarrow> bool" where
  "keep_file fn state to_delete number type =
     (case type of
        kLogFile \<Rightarrow>
          number \<ge> log_number state \<or> number = prev_log_number state
          \<or> number \<in> set (log_recycle_files state)
      | kDescriptorFile \<Rightarrow> number \<ge> manifest_file_number state
      | kTableFile \<Rightarrow> sst_live_map state number \<noteq> None \<or> number \<ge> min_pending_output state
      | kTempFile \<Rightarrow>
          sst_live_map state number \<noteq> None \<or> number = pending_manifest_file_number state
          \<or> str_contains to_delete (kOptionsFileNamePrefix fn)
      | kInfoLogFile \<Rightarrow> True
      | kCurrentFile \<Rightarrow> True
      | kDBLockFile \<Rightarrow> True
      | kIdentityFile \<Rightarrow> True
      | kMetaDatabase \<Rightarrow> True
      | kOptionsFile \<Rightarrow> True
      | kBlobFile \<Rightarrow> True)"

text \<open>
  Lines 411--498: the body of the loop for one candidate.  It yields the actions it
  performs and the name it appends to \<^verbatim>\<open>old_info_log_files\<close>, if any.
\<close>

definition purge_candidate ::
    "FileNames \<Rightarrow> DBImpl \<Rightarrow> JobContext \<Rightarrow> bool \<Rightarrow> CandidateFileInfo \<Rightarrow> action list \<times> string list" where
  "purge_candidate fn db state schedule_only candidate_file =
     (let to_delete = file_name candidate_file;
          opts = immutable_db_options db
      in case ParseFileName fn to_delete
                (InfoLogPrefix fn (db_log_dir opts \<noteq> []) (dbname db)) of
           None \<Rightarrow> ([], [])
         | Some (number, type) \<Rightarrow>
             if keep_file fn state to_delete number type
             then ([], if type = kInfoLogFile \<and> number \<noteq> 0 then [to_delete] else [])
             else
               let evict = (if type = kTableFile then [TableCacheEvict number] else []);
                   fname = (if type = kTableFile
                            then TableFileName fn (db_paths opts) number (path_id candidate_file)
                            else (if type = kLogFile then wal_dir opts else dbname db)
                                 @ ''/'' @ to_delete)
               in if type = kLogFile \<and> (wal_ttl_seconds opts > 0 \<or> wal_size_limit_mb opts > 0)
                  then (evict @ [ArchiveWALFile fname number], [])
                  else if schedule_only
                  then (evict @ [SchedulePendingPurge fname type number (path_id candidate_file)
                                   (job_id state)], [])
                  else (evict @ DeleteObsoleteFileImpl (job_id state) fname type number
                                  (path_id candidate_file), []))"

text \<open>
  Lines 507--532: the loop \<^verbatim>\<open>for (i = 0; i <= end; i++)\<close> over the sorted names, with
  \<open>n\<close> rounds left.  \<^verbatim>\<open>at(i)\<close> throws \<^verbatim>\<open>std::out_of_range\<close> beyond the vector.
  (The counter is an \<^verbatim>\<open>unsigned int\<close>; the model takes the count of names below
  \<open>2 ^ 32\<close>.)
\<close>

fun info_log_loop :: "string \<Rightarrow> string list \<Rightarrow> nat \<Rightarrow> nat \<Rightarrow> action list \<times> failure option" where
  "info_log_loop dir names i 0 = ([], None)"
| "info_log_loop dir names i (Suc n) =
     (if i < length names then
        (case info_log_loop dir names (Suc i) n of
           (acts, r) \<Rightarrow> (EnvDeleteFile (dir @ ''/'' @ names ! i) # acts, r))
      else ([], Some OutOfRange))"

text \<open>Lines 500--533: the retention of old info logs.\<close>

definition delete_old_info_log_files :: "DBImpl \<Rightarrow> string list \<Rightarrow> action list \<times> failure option" where
  "delete_old_info_log_files db old_info_log_files =
     (let opts = immutable_db_options db;
          old_info_log_file_count = length old_info_log_files
      in if old_info_log_file_count \<noteq> 0 \<and> old_info_log_file_count \<ge> keep_log_file_num opts
         then info_log_loop (if db_log_dir opts = [] then dbname db else db_log_dir opts)
                (sort old_info_log_files) 0
                (Suc (old_info_log_file_count - keep_log_file_num opts))
         else ([], None))"

definition PurgeObsoleteFiles ::
    "bool \<Rightarrow> FileNames \<Rightarrow> DBImpl \<Rightarrow> JobContext \<Rightarrow> bool \<Rightarrow> action list \<times> failure option" where
  "PurgeObsoleteFiles ndebug fn db state schedule_only =
     (if \<not> ndebug \<and> \<not> HaveSomethingToDelete fn state then ([], Some AssertionFailed)
      else if manifest_file_number state = 0 then ([], None)
      else
        let releases = concat (map (\<lambda>(fd, h). case h of None \<Rightarrow> []
                                               | Some handle \<Rightarrow> [TableCacheRelease handle])
                                 (sst_delete_files state));
            steps = map (purge_candidate fn db state schedule_only) (candidate_files fn state);
            old_info_log_files = concat (map snd steps)
        in case delete_old_info_log_files db old_info_log_files of
             (info_acts, Some e) \<Rightarrow> (releases @ concat (map fst steps) @ info_acts, Some e)
           | (info_acts, None) \<Rightarrow>
               (releases @ concat (map fst steps) @ info_acts @ [PurgeObsoleteWALFiles, LogFlush],
                None))"

text \<open>
  \<^verbatim>\<open>DeleteObsoleteFiles\<close>: a forced \<^verbatim>\<open>FindObsoleteFiles\<close>, then the purge if there
  is something to delete.  The job context is the fresh one the caller builds.
\<close>

definition DeleteObsoleteFiles ::
    "bool \<Rightarrow> Env \<Rightarrow> FileNames \<Rightarrow> DBImpl \<Rightarrow> JobContext
       \<Rightarrow> (failure option \<times> DBImpl \<times> JobContext) \<times> action list \<times> failure option" where
  "DeleteObsoleteFiles ndebug env fn db job_context =
     (case FindObsoleteFiles ndebug env db job_context True False of
        (Some e, db1, jc1) \<Rightarrow> ((Some e, db1, jc1), [], None)
      | (None, db1, jc1) \<Rightarrow>
          ((None, db1, jc1),
           if HaveSomethingToDelete fn jc1 then PurgeObsoleteFiles ndebug fn db1 jc1 False
           else ([], None)))"

text \<open>An action that concerns the table file of a given number.\<close>

definition table_action :: "u64 \<Rightarrow> action \<Rightarrow> bool" where
  "table_action number a =
     (case a of
        TableCacheEvict m \<Rightarrow> m = number
      | SchedulePendingPurge fname type m pid job \<Rightarrow> type = kTableFile \<and> m = number
      | LogAndNotifyTableFileDeletion job m fname \<Rightarrow> m = number
      | _ \<Rightarrow> False)"

section \<open>The version builder (db/version\_builder.cc)\<close>

subsection \<open>File metadata and the store\<close>

text \<open>
  \<^verbatim>\<open>FileMetaData\<close>, with the fields the builder reads or writes.  Metadata is shared
  by pointer between snapshots, slices and edits, so the records live in a store: a
  \<^verbatim>\<open>FileMetaData*\<close> is an address, \<^verbatim>\<open>new\<close> takes the next fresh address, and
  \<^verbatim>\<open>delete\<close> takes the address out of the set of allocated ones.  The builder is handed
  pointers to allocated metadata only; reading through a dangling pointer is not modelled.
\<close>

record 'k FileMetaData =
  fd :: FileDescriptor
  smallest :: 'k
  largest :: 'k
  smallest_seqno :: u64
  largest_seqno :: u64
  refs :: int
  slice_refs :: int
  file_slices :: "'k FileSlice list"
  table_reader_handle :: "nat option"

record 'k Store =
  cell :: "fptr \<Rightarrow> 'k FileMetaData"
  allocated :: "fptr set"
  next_fresh :: fptr

definition new_FileMetaData :: "'k FileMetaData \<Rightarrow> 'k Store \<Rightarrow> fptr \<times> 'k Store" where
  "new_FileMetaData v st =
     (next_fresh st,
      st\<lparr>cell := (cell st)(next_fresh st := v),
         allocated := insert (next_fresh st) (allocated st),
         next_fresh := Suc (next_fresh st)\<rparr>)"

definition update_cell ::
    "fptr \<Rightarrow> ('k FileMetaData \<Rightarrow> 'k FileMetaData) \<Rightarrow> 'k Store \<Rightarrow> 'k Store" where
  "update_cell f g st = st\<lparr>cell := (cell st)(f := g (cell st f))\<rparr>"

definition NewestFirstBySeqNo :: "'k FileMetaData \<Rightarrow> 'k FileMetaData \<Rightarrow> bool" where
  "NewestFirstBySeqNo a b =
     (if largest_seqno a \<noteq> largest_seqno b then largest_seqno a > largest_seqno b
      else if smallest_seqno a \<noteq> smallest_seqno b then smallest_seqno a > smallest_seqno b
      else fd_number (fd a) > fd_number (fd b))"

definition BySmallestKey :: "'k::linorder FileMetaData \<Rightarrow> 'k FileMetaData \<Rightarrow> bool" where
  "BySmallestKey a b =
     (let r = Compare (smallest a) (smallest b)
      in if r \<noteq> 0 then r < 0 else fd_number (fd a) < fd_number (fd b))"

datatype SortMethod = kLevel0 | kLevelNon0

definition FileComparator :: "SortMethod \<Rightarrow> 'k::linorder Store \<Rightarrow> fptr \<Rightarrow> fptr \<Rightarrow> bool" where
  "FileComparator sort_method st f1 f2 =
     (case sort_method of
        kLevel0 \<Rightarrow> NewestFirstBySeqNo (cell st f1) (cell st f2)
      | kLevelNon0 \<Rightarrow> BySmallestKey (cell st f1) (cell st f2))"

subsection \<open>The snapshot\<close>

text \<open>
  \<^verbatim>\<open>VersionStorageInfo\<close> is declared outside these sources.  The record holds the
  per-level file lists, the frozen-file set (kept as a list without repetitions), the
  flag \<^verbatim>\<open>force_consistency_checks\<close>, and, for the aggregate statistics whose arithmetic
  is not part of these sources, the files \<^verbatim>\<open>RemoveCurrentStats\<close> was called for.
\<close>

record VersionStorageInfo =
  num_levels :: nat
  files :: "nat \<Rightarrow> fptr list"
  frozen_files :: "fptr list"
  force_consistency_checks :: bool
  current_stats_removed :: "fptr list"

definition VersionStorageInfo_new :: "nat \<Rightarrow> bool \<Rightarrow> VersionStorageInfo" where
  "VersionStorageInfo_new n force =
     \<lparr>num_levels = n, files = (\<lambda>level. []), frozen_files = [],
      force_consistency_checks = force, current_stats_removed = []\<rparr>"

text \<open>
  Modelled from the spec: \<^verbatim>\<open>VersionStorageInfo::AddFile(level, f)\<close>, which is not
  part of these sources; it adds \<open>f\<close> to the level.
\<close>

definition AddFile :: "nat \<Rightarrow> fptr \<Rightarrow> VersionStorageInfo \<Rightarrow> VersionStorageInfo" where
  "AddFile level f vstorage = vstorage\<lparr>files := (files vstorage)(level := files vstorage level @ [f])\<rparr>"

text \<open>
  Modelled from the spec: \<^verbatim>\<open>VersionStorageInfo::AddFrozenFile(level, number, f)\<close> and
  \<^verbatim>\<open>GetFrozenFiles()->insert(f)\<close>, which are not part of these sources; both add \<open>f\<close>
  to the frozen set.
\<close>

definition AddFrozenFile :: "nat \<Rightarrow> u64 \<Rightarrow> fptr \<Rightarrow> VersionStorageInfo \<Rightarrow> VersionStorageInfo" where
  "AddFrozenFile level number f vstorage =
     vstorage\<lparr>frozen_files := List.insert f (frozen_files vstorage)\<rparr>"

definition GetFrozenFiles_insert :: "fptr \<Rightarrow> VersionStorageInfo \<Rightarrow> VersionStorageInfo" where
  "GetFrozenFiles_insert f vstorage =
     vstorage\<lparr>frozen_files := List.insert f (frozen_files vstorage)\<rparr>"

text \<open>
  Modelled from the spec: \<^verbatim>\<open>VersionStorageInfo::RemoveCurrentStats(f)\<close>, which is not
  part of these sources; it takes \<open>f\<close> out of the aggregate statistics.
\<close>

definition RemoveCurrentStats :: "fptr \<Rightarrow> VersionStorageInfo \<Rightarrow> VersionStorageInfo" where
  "RemoveCurrentStats f vstorage =
     vstorage\<lparr>current_stats_removed := current_stats_removed vstorage @ [f]\<rparr>"

text \<open>
  Modelled from the spec: \<^verbatim>\<open>VersionStorageInfo::AddFileSlice(level, f, slice, last_file)\<close>,
  which is not part of these sources.  The slice joins the ordered list of slices of
  \<open>f\<close>, and the slice-reference count of the file it is carved from goes up by one.
\<close>

definition AddFileSlice ::
    "nat \<Rightarrow> fptr \<Rightarrow> 'k FileSlice \<Rightarrow> fptr option \<Rightarrow> 'k Store \<Rightarrow> 'k Store" where
  "AddFileSlice level f fs last_file st =
     update_cell (parent_file_meta fs) (\<lambda>m. m\<lparr>slice_refs := slice_refs m + 1\<rparr>)
       (update_cell f (\<lambda>m. m\<lparr>file_slices := file_slices m @ [fs]\<rparr>) st)"

subsection \<open>Edits, options and the builder's state\<close>

text \<open>
  \<^verbatim>\<open>VersionEdit\<close> is declared outside these sources; the four collections the builder
  iterates are lists in iteration order.
\<close>

record 'k VersionEdit =
  GetMovedFiles :: "(nat \<times> fptr) list"
  GetNewFileSlice :: "(nat \<times> 'k FileSlice) list"
  GetDeletedFiles :: "(nat \<times> u64) list"
  GetNewFiles :: "(nat \<times> 'k FileMetaData) list"

record CompactionOptionsTwoPC =
  start_level :: int
  merge_threshold :: nat

definition CompactionOptionsTwoPC_default :: CompactionOptionsTwoPC where
  "CompactionOptionsTwoPC_default = \<lparr>start_level = 1, merge_threshold = 5\<rparr>"

record 'k MergeTask =
  task_level :: nat
  task_smallest :: 'k
  task_largest :: 'k

text \<open>
  \<^verbatim>\<open>SuperVersion\<close>: the option \<^verbatim>\<open>mutable_cf_options.compaction_options_2pc\<close> and the
  set \<^verbatim>\<open>merge_tasks->tasks\<close> of pointers to freshly allocated tasks, kept in order of
  insertion.
\<close>

record 'k SuperVersion =
  compaction_options_2pc :: CompactionOptionsTwoPC
  merge_tasks :: "'k MergeTask list"

text \<open>
  \<^verbatim>\<open>LevelState\<close>: \<^verbatim>\<open>added_files\<close> is a map from file number to pointer (a list of
  pairs with one entry per number), \<^verbatim>\<open>added_file_slices\<close> a multimap (pairs in
  insertion order; the entries of one key are those of its equal range),
  \<^verbatim>\<open>added_frozen_files\<close> a set of pointers (a list without repetitions).
\<close>

record 'k LevelState =
  deleted_files :: "u64 set"
  added_files :: "(u64 \<times> fptr) list"
  added_file_slices :: "(u64 \<times> 'k FileSlice) list"
  added_frozen_files :: "fptr list"

text \<open>
  \<^verbatim>\<open>VersionBuilder::Rep\<close> (the members \<^verbatim>\<open>num_levels_\<close>, \<^verbatim>\<open>levels_\<close>,
  \<^verbatim>\<open>invalid_levels_\<close>, \<^verbatim>\<open>has_invalid_levels_\<close> and \<^verbatim>\<open>super_version_\<close> without
  their trailing underscore).
\<close>

record 'k Rep =
  base_vstorage :: VersionStorageInfo
  rep_num_levels :: nat
  levels :: "nat \<Rightarrow> 'k LevelState"
  invalid_levels :: "(nat \<times> u64 set) list"
  has_invalid_levels :: bool
  super_version :: "'k SuperVersion"

definition Rep_new :: "VersionStorageInfo \<Rightarrow> 'k SuperVersion \<Rightarrow> 'k Rep" where
  "Rep_new base sv =
     \<lparr>base_vstorage = base,
      rep_num_levels = num_levels base,
      levels = (\<lambda>level. \<lparr>deleted_files = {}, added_files = [], added_file_slices = [],
                            added_frozen_files = []\<rparr>),
      invalid_levels = [],
      has_invalid_levels = False,
      super_version = sv\<rparr>"

definition update_level ::
    "nat \<Rightarrow> ('k LevelState \<Rightarrow> 'k LevelState) \<Rightarrow> 'k Rep \<Rightarrow> 'k Rep" where
  "update_level level g rep = rep\<lparr>levels := (levels rep)(level := g (levels rep level))\<rparr>"

text \<open>
  \<^verbatim>\<open>UnrefFile\<close>.  The handle goes back to the table cache (an effect on the cache,
  which is not part of the model) before the metadata is deleted.
\<close>

definition UnrefFile :: "fptr \<Rightarrow> 'k Store \<Rightarrow> 'k Store" where
  "UnrefFile f st =
     (let st1 = update_cell f (\<lambda>m. m\<lparr>refs := refs m - 1\<rparr>) st
      in if refs (cell st1 f) \<le> 0
         then (update_cell f (\<lambda>m. m\<lparr>table_reader_handle := None\<rparr>) st1)
                \<lparr>allocated := allocated st1 - {f}\<rparr>
         else st1)"

subsection \<open>Consistency checks\<close>

fun check_adjacent :: "('a \<Rightarrow> 'a \<Rightarrow> bool) \<Rightarrow> 'a list \<Rightarrow> bool" where
  "check_adjacent ok (f1 # f2 # fs) = (ok f1 f2 \<and> check_adjacent ok (f2 # fs))"
| "check_adjacent ok fs = True"

text \<open>The body of the loop of \<^verbatim>\<open>CheckConsistency\<close> for one pair; false where it aborts.\<close>

definition check_pair :: "'k::linorder Store \<Rightarrow> nat \<Rightarrow> fptr \<Rightarrow> fptr \<Rightarrow> bool" where
  "check_pair st level f1 f2 =
     (if level = 0 then
        FileComparator kLevel0 st f1 f2
        \<and> (if smallest_seqno (cell st f2) = largest_seqno (cell st f2)
           then (let external_file_seqno = smallest_seqno (cell st f2)
                 in external_file_seqno < largest_seqno (cell st f1) \<or> external_file_seqno = 0)
           else \<not> smallest_seqno (cell st f1) \<le> smallest_seqno (cell st f2))
      else
        FileComparator kLevelNon0 st f1 f2
        \<and> \<not> Compare (largest (cell st f1)) (smallest (cell st f2)) \<ge> 0)"

text \<open>\<^verbatim>\<open>CheckConsistency\<close>: true when the function returns, false when it aborts.\<close>

definition CheckConsistency ::
    "bool \<Rightarrow> 'k::linorder Rep \<Rightarrow> 'k Store \<Rightarrow> VersionStorageInfo \<Rightarrow> bool" where
  "CheckConsistency ndebug rep st vstorage =
     (if ndebug \<and> \<not> force_consistency_checks vstorage then True
      else list_all (\<lambda>level. check_adjacent (check_pair st level) (files vstorage level))
             [0 ..< rep_num_levels rep])"

definition CheckConsistencyForDeletes ::
    "bool \<Rightarrow> 'k Rep \<Rightarrow> 'k Store \<Rightarrow> u64 \<Rightarrow> nat \<Rightarrow> bool" where
  "CheckConsistencyForDeletes ndebug rep st number level =
     (if ndebug \<and> \<not> force_consistency_checks (base_vstorage rep) then True
      else
        list_ex (\<lambda>l. list_ex (\<lambda>f. fd_number (fd (cell st f)) = number)
                        (files (base_vstorage rep) l))
          [0 ..< rep_num_levels rep]
        \<or> list_ex (\<lambda>l. map_of (added_files (levels rep l)) number \<noteq> None)
            [Suc level ..< rep_num_levels rep]
        \<or> map_of (added_files (levels rep level)) number \<noteq> None)"

definition invalid_level_set :: "'k Rep \<Rightarrow> nat \<Rightarrow> u64 set" where
  "invalid_level_set rep level =
     (case map_of (invalid_levels rep) level of None \<Rightarrow> {} | Some numbers \<Rightarrow> numbers)"

definition set_invalid_level :: "nat \<Rightarrow> u64 set \<Rightarrow> 'k Rep \<Rightarrow> 'k Rep" where
  "set_invalid_level level numbers rep =
     rep\<lparr>invalid_levels := (level, numbers) # filter (\<lambda>(l, ns). l \<noteq> level) (invalid_levels rep)\<rparr>"

definition CheckConsistencyForNumLevels :: "'k Rep \<Rightarrow> bool" where
  "CheckConsistencyForNumLevels rep =
     (if has_invalid_levels rep then False
      else list_all (\<lambda>(level, numbers). numbers = {}) (invalid_levels rep))"

subsection \<open>Apply\<close>

text \<open>
  The four loops of \<^verbatim>\<open>Apply\<close>.  On an invalid level the first two do nothing
  (\<^verbatim>\<open>assert(false)\<close> stands under \<^verbatim>\<open>#ifdef NDEBUG\<close>, where assertions are off).
\<close>

definition apply_moved :: "(nat \<times> fptr) list \<Rightarrow> 'k Rep \<Rightarrow> 'k Rep" where
  "apply_moved mov rep =
     foldl (\<lambda>rep (level, file_meta_data).
              if level < rep_num_levels rep
              then update_level level
                     (\<lambda>ls. ls\<lparr>added_frozen_files := List.insert file_meta_data (added_frozen_files ls)\<rparr>)
                     rep
              else rep) rep mov"

definition apply_slices :: "(nat \<times> 'k FileSlice) list \<Rightarrow> 'k Rep \<Rightarrow> 'k Rep" where
  "apply_slices new_slices rep =
     foldl (\<lambda>rep (level, file_slice).
              if level < rep_num_levels rep
              then update_level level
                     (\<lambda>ls. ls\<lparr>added_file_slices :=
                                added_file_slices ls @ [(output_file_number file_slice, file_slice)]\<rparr>)
                     rep
              else rep) rep new_slices"

fun apply_deletes ::
    "bool \<Rightarrow> (nat \<times> u64) list \<Rightarrow> 'k Rep \<times> 'k Store \<Rightarrow> failure + 'k Rep \<times> 'k Store" where
  "apply_deletes ndebug [] s = Inr s"
| "apply_deletes ndebug ((level, number) # del) (rep, st) =
     (if level < rep_num_levels rep then
        let rep1 = update_level level
                     (\<lambda>ls. ls\<lparr>deleted_files := insert number (deleted_files ls)\<rparr>) rep
        in if \<not> CheckConsistencyForDeletes ndebug rep1 st number level then Inl Aborted
           else (case map_of (added_files (levels rep1 level)) number of
                   Some exising \<Rightarrow>
                     apply_deletes ndebug del
                       (update_level level
                          (\<lambda>ls. ls\<lparr>added_files := filter (\<lambda>(n, f). n \<noteq> number) (added_files ls)\<rparr>)
                          rep1,
                        UnrefFile exising st)
                 | None \<Rightarrow> apply_deletes ndebug del (rep1, st))
      else if number \<in> invalid_level_set rep level
      then apply_deletes ndebug del
             (set_invalid_level level (invalid_level_set rep level - {number}) rep, st)
      else apply_deletes ndebug del
             ((set_invalid_level level (invalid_level_set rep level) rep)
                \<lparr>has_invalid_levels := True\<rparr>, st))"

fun apply_new_files ::
    "bool \<Rightarrow> (nat \<times> 'k FileMetaData) list \<Rightarrow> 'k Rep \<times> 'k Store \<Rightarrow> failure + 'k Rep \<times> 'k Store" where
  "apply_new_files ndebug [] s = Inr s"
| "apply_new_files ndebug ((level, new_file) # rest) (rep, st) =
     (if level < rep_num_levels rep then
        (case new_FileMetaData (new_file\<lparr>refs := 1\<rparr>) st of
           (f, st1) \<Rightarrow>
             let number = fd_number (fd new_file)
             in if \<not> ndebug \<and> map_of (added_files (levels rep level)) number \<noteq> None
                then Inl AssertionFailed
                else apply_new_files ndebug rest
                       (update_level level
                          (\<lambda>ls. ls\<lparr>deleted_files := deleted_files ls - {number},
                                    added_files := (number, f)
                                      # filter (\<lambda>(n, g). n \<noteq> number) (added_files ls)\<rparr>)
                          rep,
                        st1))
      else
        let number = fd_number (fd new_file)
        in if number \<notin> invalid_level_set rep level
           then apply_new_files ndebug rest
                  (set_invalid_level level (insert number (invalid_level_set rep level)) rep, st)
           else apply_new_files ndebug rest
                  ((set_invalid_level level (invalid_level_set rep level) rep)
                     \<lparr>has_invalid_levels := True\<rparr>, st))"

definition Apply ::
    "bool \<Rightarrow> 'k::linorder VersionEdit \<Rightarrow> 'k Rep \<times> 'k Store \<Rightarrow> failure + 'k Rep \<times> 'k Store" where
  "Apply ndebug edit s =
     (case s of
        (rep, st) \<Rightarrow>
          if \<not> CheckConsistency ndebug rep st (base_vstorage rep) then Inl Aborted
          else (case apply_deletes ndebug (GetDeletedFiles edit)
                       (apply_slices (GetNewFileSlice edit) (apply_moved (GetMovedFiles edit) rep),
                        st) of
                  Inl e \<Rightarrow> Inl e
                | Inr s1 \<Rightarrow> apply_new_files ndebug (GetNewFiles edit) s1))"


subsection \<open>SaveTo\<close>

text \<open>
  The state that \<^verbatim>\<open>SaveTo\<close> threads through \<^verbatim>\<open>MaybeAddFile\<close>: the builder (whose
  super-version holds the merge tasks), the snapshot under construction, the store, and
  the local \<^verbatim>\<open>last_file\<close>.
\<close>

type_synonym 'k save_state = "'k Rep \<times> VersionStorageInfo \<times> 'k Store \<times> fptr option"

fun dec_slice_refs :: "bool \<Rightarrow> 'k FileSlice list \<Rightarrow> 'k Store \<Rightarrow> failure + 'k Store" where
  "dec_slice_refs ndebug [] st = Inr st"
| "dec_slice_refs ndebug (fs # rest) st =
     (let st1 = update_cell (parent_file_meta fs) (\<lambda>m. m\<lparr>slice_refs := slice_refs m - 1\<rparr>) st
      in if \<not> ndebug \<and> \<not> slice_refs (cell st1 (parent_file_meta fs)) \<ge> 0
         then Inl AssertionFailed
         else dec_slice_refs ndebug rest st1)"

text \<open>The equal range of a file number in \<^verbatim>\<open>added_file_slices\<close> of a level.\<close>

definition slices_for :: "'k Rep \<Rightarrow> nat \<Rightarrow> u64 \<Rightarrow> 'k FileSlice list" where
  "slices_for rep level number =
     map snd (filter (\<lambda>(n, fs). n = number) (added_file_slices (levels rep level)))"

text \<open>\<^verbatim>\<open>MaybeAddFile\<close>; \<^verbatim>\<open>SaveTo\<close> calls it with \<open>level < num_levels_\<close>.\<close>

definition MaybeAddFile :: "bool \<Rightarrow> nat \<Rightarrow> fptr \<Rightarrow> 'k save_state \<Rightarrow> failure + 'k save_state" where
  "MaybeAddFile ndebug level f s =
     (case s of
        (rep, vstorage, st, last_file) \<Rightarrow>
          if fd_number (fd (cell st f)) \<in> deleted_files (levels rep level) then
            (case dec_slice_refs ndebug (file_slices (cell st f)) st of
               Inl e \<Rightarrow> Inl e
             | Inr st1 \<Rightarrow> Inr (rep, RemoveCurrentStats f vstorage, st1, last_file))
          else if f \<in> set (added_frozen_files (levels rep level)) then
            (let vs1 = AddFrozenFile level (fd_number (fd (cell st f))) f vstorage
             in if \<not> ndebug \<and> file_slices (cell st f) \<noteq> [] then Inl AssertionFailed
                else Inr (rep, RemoveCurrentStats f vs1, st, last_file))
          else
            (let vs1 = AddFile level f vstorage;
                 new_slices = slices_for rep level (fd_number (fd (cell st f)));
                 st1 = foldl (\<lambda>st fs. AddFileSlice level f fs last_file st) st new_slices;
                 add_file_slices = (new_slices \<noteq> []);
                 rep1 =
                   (if add_file_slices
                       \<and> length (file_slices (cell st1 f))
                           > merge_threshold (compaction_options_2pc (super_version rep))
                    then rep\<lparr>super_version := (super_version rep)
                               \<lparr>merge_tasks := merge_tasks (super_version rep)
                                  @ [\<lparr>task_level = level,
                                       task_smallest = smallest (cell st1 f),
                                       task_largest = largest (cell st1 f)\<rparr>]\<rparr>\<rparr>
                    else rep)
             in Inr (rep1, vs1, st1, Some f)))"

fun maybe_add_all :: "bool \<Rightarrow> nat \<Rightarrow> fptr list \<Rightarrow> 'k save_state \<Rightarrow> failure + 'k save_state" where
  "maybe_add_all ndebug level [] s = Inr s"
| "maybe_add_all ndebug level (f # fs) s =
     (case MaybeAddFile ndebug level f s of
        Inl e \<Rightarrow> Inl e
      | Inr s1 \<Rightarrow> maybe_add_all ndebug level fs s1)"

text \<open>
  \<^verbatim>\<open>std::upper_bound(first, last, v, lt)\<close>, as the standard library computes it: a
  binary search that halves the length \<open>len\<close> of the range still to be searched, looks
  at its middle element, and goes on in the left half when \<open>lt v middle\<close> holds and
  beyond the middle otherwise.  The result is an offset into \<open>xs\<close>; the middle always
  lies inside the list.  On a range that is partitioned with respect to \<open>lt v\<close> (any
  level that passed \<^verbatim>\<open>CheckConsistency\<close>) this is the first position whose element
  \<open>x\<close> has \<open>lt v x\<close>.
\<close>

function upper_bound_from :: "('a \<Rightarrow> 'a \<Rightarrow> bool) \<Rightarrow> 'a list \<Rightarrow> 'a \<Rightarrow> nat \<Rightarrow> nat \<Rightarrow> nat" where
  "upper_bound_from lt xs v first len =
     (if len = 0 then first
      else if lt v (xs ! (first + len div 2))
      then upper_bound_from lt xs v first (len div 2)
      else upper_bound_from lt xs v (first + len div 2 + 1) (len - len div 2 - 1))"
  by pat_completeness auto
termination
  by (relation "measure (\<lambda>(lt, xs, v, first, len). len)") auto

declare upper_bound_from.simps [simp del]

definition upper_bound :: "('a \<Rightarrow> 'a \<Rightarrow> bool) \<Rightarrow> 'a list \<Rightarrow> 'a \<Rightarrow> nat" where
  "upper_bound lt xs v = upper_bound_from lt xs v 0 (length xs)"

text \<open>
  Lines 380--396: the loop over the sorted added files, with the part of the base level
  not yet consumed.  It yields what is left of the base level.
\<close>

fun save_added ::
    "bool \<Rightarrow> SortMethod \<Rightarrow> nat \<Rightarrow> fptr option \<Rightarrow> fptr list \<Rightarrow> fptr list \<Rightarrow> 'k::linorder save_state
       \<Rightarrow> failure + fptr list \<times> 'k save_state" where
  "save_added ndebug cmp level prev_file [] base_rest s = Inr (base_rest, s)"
| "save_added ndebug cmp level prev_file (added # rest) base_rest (rep, vstorage, st, last_file) =
     (if \<not> ndebug \<and> level > 0
         \<and> (case prev_file of
              None \<Rightarrow> False
            | Some p \<Rightarrow> \<not> Compare (smallest (cell st p)) (smallest (cell st added)) \<le> 0)
      then Inl AssertionFailed
      else
        let bpos = upper_bound (FileComparator cmp st) base_rest added
        in case maybe_add_all ndebug level (take bpos base_rest) (rep, vstorage, st, last_file) of
             Inl e \<Rightarrow> Inl e
           | Inr s1 \<Rightarrow>
               (case MaybeAddFile ndebug level added s1 of
                  Inl e \<Rightarrow> Inl e
                | Inr s2 \<Rightarrow>
                    save_added ndebug cmp level (Some added) rest (drop bpos base_rest) s2))"

text \<open>Lines 355--408: the body of the loop over the levels.\<close>

definition save_level ::
    "bool \<Rightarrow> nat \<Rightarrow> 'k::linorder Rep \<times> VersionStorageInfo \<times> 'k Store
       \<Rightarrow> failure + 'k Rep \<times> VersionStorageInfo \<times> 'k Store" where
  "save_level ndebug level s =
     (case s of
        (rep, vstorage, st) \<Rightarrow>
          let cmp = (if level = 0 then kLevel0 else kLevelNon0);
              base_files = files (base_vstorage rep) level;
              sorted_added = std_sort (FileComparator cmp st)
                               (map snd (added_files (levels rep level)))
          in case save_added ndebug cmp level None sorted_added base_files
                    (rep, vstorage, st, None) of
               Inl e \<Rightarrow> Inl e
             | Inr (base_rest, s1) \<Rightarrow>
                 (case maybe_add_all ndebug level base_rest s1 of
                    Inl e \<Rightarrow> Inl e
                  | Inr (rep2, vs2, st2, last_file) \<Rightarrow>
                      Inr (rep2,
                           foldl (\<lambda>vs frozen_file. GetFrozenFiles_insert frozen_file vs) vs2
                             (added_frozen_files (levels rep2 level)),
                           st2)))"

fun save_levels ::
    "bool \<Rightarrow> nat list \<Rightarrow> 'k::linorder Rep \<times> VersionStorageInfo \<times> 'k Store
       \<Rightarrow> failure + 'k Rep \<times> VersionStorageInfo \<times> 'k Store" where
  "save_levels ndebug [] s = Inr s"
| "save_levels ndebug (level # ls) s =
     (case save_level ndebug level s of
        Inl e \<Rightarrow> Inl e
      | Inr s1 \<Rightarrow> save_levels ndebug ls s1)"

text \<open>Lines 411--416: the frozen files of the base that still have slice references.\<close>

definition carry_frozen ::
    "fptr list \<Rightarrow> VersionStorageInfo \<times> 'k Store \<Rightarrow> VersionStorageInfo \<times> 'k Store" where
  "carry_frozen base_frozen s =
     foldl (\<lambda>(vs, st) file_meta.
              if slice_refs (cell st file_meta) > 0
              then (GetFrozenFiles_insert file_meta vs,
                    update_cell file_meta (\<lambda>m. m\<lparr>refs := refs m + 1\<rparr>) st)
              else (vs, st)) s base_frozen"

definition SaveTo ::
    "bool \<Rightarrow> 'k::linorder Rep \<Rightarrow> VersionStorageInfo \<Rightarrow> 'k Store
       \<Rightarrow> failure + 'k Rep \<times> VersionStorageInfo \<times> 'k Store" where
  "SaveTo ndebug rep vstorage st =
     (if \<not> CheckConsistency ndebug rep st (base_vstorage rep) then Inl Aborted
      else if \<not> CheckConsistency ndebug rep st vstorage then Inl Aborted
      else case save_levels ndebug [0 ..< rep_num_levels rep] (rep, vstorage, st) of
             Inl e \<Rightarrow> Inl e
           | Inr (rep1, vs1, st1) \<Rightarrow>
               (case carry_frozen (frozen_files (base_vstorage rep)) (vs1, st1) of
                  (vs2, st2) \<Rightarrow>
                    if \<not> CheckConsistency ndebug rep1 st2 vs2 then Inl Aborted
                    else Inr (rep1, vs2, st2)))"


subsection \<open>Using the builder\<close>

text \<open>
  The way the builder is used: a fresh builder over a base snapshot, the edits applied
  in order, and \<^verbatim>\<open>SaveTo\<close> into a fresh snapshot with the levels and the
  consistency flag of the base.
\<close>

fun apply_all ::
    "bool \<Rightarrow> 'k::linorder VersionEdit list \<Rightarrow> 'k Rep \<times> 'k Store \<Rightarrow> failure + 'k Rep \<times> 'k Store" where
  "apply_all ndebug [] s = Inr s"
| "apply_all ndebug (edit # edits) s =
     (case Apply ndebug edit s of
        Inl e \<Rightarrow> Inl e
      | Inr s1 \<Rightarrow> apply_all ndebug edits s1)"

definition apply_and_save ::
    "bool \<Rightarrow> VersionStorageInfo \<Rightarrow> 'k::linorder SuperVersion \<Rightarrow> 'k VersionEdit list \<Rightarrow> 'k Store
       \<Rightarrow> failure + 'k Rep \<times> VersionStorageInfo \<times> 'k Store" where
  "apply_and_save ndebug base sv edits st =
     (case apply_all ndebug edits (Rep_new base sv, st) of
        Inl e \<Rightarrow> Inl e
      | Inr (rep, st1) \<Rightarrow>
          SaveTo ndebug rep
            (VersionStorageInfo_new (num_levels base) (force_consistency_checks base)) st1)"

text \<open>The frozen files of a saved snapshot, each with its slice-reference count.\<close>

definition frozen_with_slice_refs ::
    "failure + 'k Rep \<times> VersionStorageInfo \<times> 'k Store \<Rightarrow> failure + (fptr \<times> int) list" where
  "frozen_with_slice_refs r =
     (case r of
        Inl e \<Rightarrow> Inl e
      | Inr (rep, vs, st) \<Rightarrow> Inr (map (\<lambda>f. (f, slice_refs (cell st f))) (frozen_files vs)))"

text \<open>
  The pointers of a snapshot point to allocated metadata, and allocated addresses lie
  below the next fresh one.
\<close>

definition store_covers :: "'k Store \<Rightarrow> VersionStorageInfo \<Rightarrow> bool" where
  "store_covers st vs =
     (list_all (\<lambda>l. list_all (\<lambda>p. p \<in> allocated st) (files vs l)) [0 ..< num_levels vs]
      \<and> list_all (\<lambda>p. p \<in> allocated st) (frozen_files vs)
      \<and> (\<forall>p \<in> allocated st. p < next_fresh st))"


text \<open>
  Two metadata records agree on the fields that the comparators and the consistency
  checks read.
\<close>

definition same_order_fields :: "'k FileMetaData \<Rightarrow> 'k FileMetaData \<Rightarrow> bool" where
  "same_order_fields a b =
     (fd a = fd b \<and> smallest a = smallest b \<and> largest a = largest b
      \<and> smallest_seqno a = smallest_seqno b \<and> largest_seqno a = largest_seqno b)"


subsection \<open>Scenarios\<close>

text \<open>
  Scenario S5 of the specification: live table files 100 and 101, pending output 200,
  \<^verbatim>\<open>log_number\<close> 50, \<^verbatim>\<open>prev_log_number\<close> 48, manifest 30.  The parser knows the names
  of the scenario.
\<close>

definition S5_names :: FileNames where
  "S5_names =
     \<lparr>ParseFileName = (\<lambda>fname prefix.
          if fname = ''/000030.log'' then Some (30, kLogFile)
          else if fname = ''/000048.log'' then Some (48, kLogFile)
          else if fname = ''/000050.log'' then Some (50, kLogFile)
          else if fname = ''/000100.sst'' then Some (100, kTableFile)
          else if fname = ''/000150.sst'' then Some (150, kTableFile)
          else if fname = ''/000200.dbtmp'' then Some (200, kTempFile)
          else if fname = ''/MANIFEST-000030'' then Some (30, kDescriptorFile)
          else if fname = ''/MANIFEST-000029'' then Some (29, kDescriptorFile)
          else if fname = ''/LOG.old.1'' then Some (1, kInfoLogFile)
          else None),
      InfoLogPrefix = (\<lambda>has_log_dir name. ''LOG''),
      MakeTableFileName = (\<lambda>name number. name @ ''/table''),
      LogFileName = (\<lambda>name number. name @ ''/log''),
      TableFileName = (\<lambda>paths number pid. ''/db/table''),
      kOptionsFileNamePrefix = ''OPTIONS-'',
      HaveSomethingToDelete = (\<lambda>jc. True)\<rparr>"

definition S5_state :: JobContext where
  "S5_state =
     \<lparr>job_id = 7,
      full_scan_candidate_files =
        map (\<lambda>n. \<lparr>file_name = n, path_id = 0\<rparr>)
          [''/000030.log'', ''/000048.log'', ''/000050.log'', ''/000100.sst'', ''/000150.sst'',
           ''/000200.dbtmp'', ''/MANIFEST-000030'', ''/MANIFEST-000029''],
      sst_live = [\<lparr>fd_number = 100, fd_path_id = 0\<rparr>, \<lparr>fd_number = 101, fd_path_id = 0\<rparr>],
      sst_delete_files = [],
      log_delete_files = [],
      log_recycle_files = [],
      manifest_delete_files = [],
      logs_to_free = [],
      manifest_file_number = 30,
      pending_manifest_file_number = 200,
      log_number = 50,
      prev_log_number = 48,
      min_pending_output = 200,
      prev_total_log_size = 0,
      num_alive_log_files = 0,
      size_log_to_delete = 0\<rparr>"

definition S5_db :: DBImpl where
  "S5_db =
     \<lparr>allow_2pc = False,
      GetColumnFamilySet = [],
      MinLogNumber = 50,
      min_log_with_prep = [],
      prepared_section_completed = Map.empty,
      dbname = ''/db'',
      immutable_db_options =
        \<lparr>db_paths = [''/db''], wal_dir = ''/db'', db_log_dir = [], recycle_log_file_num = 0,
         keep_log_file_num = 1, wal_ttl_seconds = 0, wal_size_limit_mb = 0\<rparr>,
      delete_obsolete_files_period_micros = 10,
      vs_GetObsoleteFiles = (\<lambda>files manifests mpo. (files, manifests)),
      vs_AddLiveFiles =
        (\<lambda>live. live @ [\<lparr>fd_number = 100, fd_path_id = 0\<rparr>, \<lparr>fd_number = 101, fd_path_id = 0\<rparr>]),
      vs_manifest_file_number = 30,
      vs_pending_manifest_file_number = 200,
      vs_prev_log_number = 48,
      disable_delete_obsolete_files = 0,
      delete_obsolete_files_last_run = 0,
      pending_outputs = [200],
      alive_log_files = [\<lparr>lf_number = 30, lf_size = 4\<rparr>, \<lparr>lf_number = 50, lf_size = 6\<rparr>],
      logs = [\<lparr>lw_number = 30, getting_synced = False, lw_writer = 1\<rparr>,
              \<lparr>lw_number = 50, getting_synced = False, lw_writer = 2\<rparr>],
      db_logs_to_free = [],
      db_log_recycle_files = [],
      total_log_size = 10\<rparr>"

definition S5_env :: "u64 \<Rightarrow> Env" where
  "S5_env now =
     \<lparr>NowMicros = now,
      GetChildren = (\<lambda>dir. if dir = ''/db'' then [''000100.sst'', ''000150.sst''] else [])\<rparr>"

definition fresh_job :: JobContext where
  "fresh_job =
     \<lparr>job_id = 7, full_scan_candidate_files = [], sst_live = [], sst_delete_files = [],
      log_delete_files = [], log_recycle_files = [], manifest_delete_files = [],
      logs_to_free = [], manifest_file_number = 0, pending_manifest_file_number = 0,
      log_number = 0, prev_log_number = 0, min_pending_output = 0, prev_total_log_size = 0,
      num_alive_log_files = 0, size_log_to_delete = 0\<rparr>"


text \<open>
  Scenario S4 of the specification: \<^verbatim>\<open>merge_threshold = 2\<close>, a base whose level 1
  holds the file \<open>P\<close> (number 10, keys 1 to 100, at address 1), and an edit that adds
  three slices of \<open>P\<close> at level 1 with \<open>P\<close>'s number as output file number.
\<close>

definition file_P :: "nat FileMetaData" where
  "file_P = \<lparr>fd = \<lparr>fd_number = 10, fd_path_id = 0\<rparr>, smallest = 1, largest = 100,
             smallest_seqno = 1, largest_seqno = 9, refs = 1, slice_refs = 0,
             file_slices = [], table_reader_handle = None\<rparr>"

definition S4_store :: "nat Store" where
  "S4_store = \<lparr>cell = (\<lambda>p. file_P), allocated = {1}, next_fresh = 2\<rparr>"

definition S4_base :: VersionStorageInfo where
  "S4_base = \<lparr>num_levels = 2, files = (\<lambda>level. [])(1 := [1]), frozen_files = [],
              force_consistency_checks = False, current_stats_removed = []\<rparr>"

definition S4_super_version :: "nat SuperVersion" where
  "S4_super_version =
     \<lparr>compaction_options_2pc = \<lparr>start_level = 1, merge_threshold = 2\<rparr>, merge_tasks = []\<rparr>"

definition S4_slice :: "nat \<Rightarrow> nat \<Rightarrow> nat FileSlice" where
  "S4_slice lo hi = \<lparr>parent_file_meta = 1, slice_smallest = lo, slice_largest = hi,
                     is_contain_smallest = True, output_file_number = 10\<rparr>"

definition S4_edit :: "nat VersionEdit" where
  "S4_edit = \<lparr>GetMovedFiles = [],
              GetNewFileSlice = [(1, S4_slice 1 30), (1, S4_slice 31 60), (1, S4_slice 61 100)],
              GetDeletedFiles = [], GetNewFiles = []\<rparr>"

definition S4_rep :: "nat Rep" where
  "S4_rep = apply_slices (GetNewFileSlice S4_edit) (Rep_new S4_base S4_super_version)"


text \<open>An edit that only moves \<open>P\<close> to the frozen files of level 1.\<close>

definition freeze_P_edit :: "nat VersionEdit" where
  "freeze_P_edit = \<lparr>GetMovedFiles = [(1, 1)], GetNewFileSlice = [], GetDeletedFiles = [],
                    GetNewFiles = []\<rparr>"

text \<open>
  A base like that of S4 whose frozen set holds a file (at address 2) with no slice
  reference left, and the two edits of a round trip: add file 11 at level 1, delete it.
\<close>

definition frozen_base :: VersionStorageInfo where
  "frozen_base = S4_base\<lparr>frozen_files := [2]\<rparr>"

definition frozen_store :: "nat Store" where
  "frozen_store =
     \<lparr>cell = (\<lambda>p. file_P)(2 := file_P\<lparr>fd := \<lparr>fd_number = 5, fd_path_id = 0\<rparr>\<rparr>),
      allocated = {1, 2}, next_fresh = 3\<rparr>"

text \<open>The same store with one slice reference left on the frozen file.\<close>

definition carried_store :: "nat Store" where
  "carried_store =
     frozen_store\<lparr>cell := (cell frozen_store)(2 := (cell frozen_store 2)\<lparr>slice_refs := 1\<rparr>)\<rparr>"


definition file_11 :: "nat FileMetaData" where
  "file_11 = file_P\<lparr>fd := \<lparr>fd_number = 11, fd_path_id = 0\<rparr>, smallest := 200, largest := 300\<rparr>"

definition add_edit :: "nat \<Rightarrow> 'k FileMetaData \<Rightarrow> 'k VersionEdit" where
  "add_edit level f = \<lparr>GetMovedFiles = [], GetNewFileSlice = [], GetDeletedFiles = [],
                       GetNewFiles = [(level, f)]\<rparr>"

definition delete_edit :: "nat \<Rightarrow> u64 \<Rightarrow> 'k VersionEdit" where
  "delete_edit level number = \<lparr>GetMovedFiles = [], GetNewFileSlice = [],
                               GetDeletedFiles = [(level, number)], GetNewFiles = []\<rparr>"


text \<open>
  An iterator used to illustrate seeking: a file with keys 1, 3, 5, 7 and the slice \<open>(3, 5]\<close>.  The seek stops at
  index 1 (key 3), the exclusive lower end moves on to index 2 (key 5), and the iterator
  is valid there.
\<close>

definition C8_iter :: "(nat, string) FileSliceIterator" where
  "C8_iter = \<lparr>file_iter = \<lparr>entries = [(1, ''a''), (3, ''b''), (5, ''c''), (7, ''d'')],
                           pos = 0, iter_status = Status_OK\<rparr>,
             file_slice = \<lparr>parent_file_meta = 0, slice_smallest = 3, slice_largest = 5,
                            is_contain_smallest = False, output_file_number = 9\<rparr>\<rparr>"


section \<open>Theorems\<close>

lemma FindMinPrepLog_after_heap:
  "FindMinPrepLogReferencedByMemTable (snd (FindMinLogContainingOutstandingPrep db)) =
   FindMinPrepLogReferencedByMemTable db"
  by (simp add: FindMinPrepLogReferencedByMemTable_def FindMinLogContainingOutstandingPrep_def
      split: prod.splits)

lemma S6_heap: "fst (FindMinLogContainingOutstandingPrep S6_db) = 80"
  by (simp add: FindMinLogContainingOutstandingPrep_def S6_db_def)

lemma S6_mem: "FindMinPrepLogReferencedByMemTable S6_db = 75"
  by (simp add: FindMinPrepLogReferencedByMemTable_def S6_db_def prep_log_cfd_def prep_log_min_def)

subsection \<open>Two-phase-commit log retention\<close>

text \<open>
  C2.  With 2PC enabled, \<^verbatim>\<open>MinLogNumberToKeep\<close> returns the least of the version set's
  minimum log number, the result of \<^verbatim>\<open>FindMinLogContainingOutstandingPrep\<close> and the
  result of \<^verbatim>\<open>FindMinPrepLogReferencedByMemTable\<close> (called in that order),
  where a zero result of either of the latter two is ignored.  In scenario S6
  (heap \<open>[70, 80]\<close>, completion counts \<open>70 \<mapsto> 1\<close>, \<open>80 \<mapsto> 0\<close>, memtable minimums 90 and 75,
  version-set minimum 100) the three functions return 80, 75 and 75.
\<close>

theorem C2_MinLogNumberToKeep:
  "(allow_2pc db \<longrightarrow>
      fst (MinLogNumberToKeep db) =
        Min (insert (MinLogNumber db)
               ({fst (FindMinLogContainingOutstandingPrep db),
                 FindMinPrepLogReferencedByMemTable (snd (FindMinLogContainingOutstandingPrep db))}
                - {0})))
   \<and> fst (FindMinLogContainingOutstandingPrep S6_db) = 80
   \<and> FindMinPrepLogReferencedByMemTable S6_db = 75
   \<and> fst (MinLogNumberToKeep S6_db) = 75"
proof -
  have general: "fst (MinLogNumberToKeep db) =
        Min (insert (MinLogNumber db)
               ({fst (FindMinLogContainingOutstandingPrep db),
                 FindMinPrepLogReferencedByMemTable (snd (FindMinLogContainingOutstandingPrep db))}
                - {0}))" if on: "allow_2pc db"
  proof -
    obtain a db1 where call: "FindMinLogContainingOutstandingPrep db = (a, db1)"
      by (cases "FindMinLogContainingOutstandingPrep db")
    define b where "b = FindMinPrepLogReferencedByMemTable db1"
    define m where "m = MinLogNumber db"
    have res: "fst (MinLogNumberToKeep db) =
        (let l = (if a \<noteq> 0 \<and> a < m then a else m) in if b \<noteq> 0 \<and> b < l then b else l)"
      using on call by (simp add: MinLogNumberToKeep_def b_def m_def Let_def)
    have "(let l = (if a \<noteq> 0 \<and> a < m then a else m) in if b \<noteq> 0 \<and> b < l then b else l)
          = Min (insert m ({a, b} - {0}))"
      by (cases "a = 0"; cases "b = 0") (auto simp: Let_def min_def insert_Diff_if)
    then show ?thesis using res call by (simp add: b_def m_def)
  qed
  have keep: "fst (MinLogNumberToKeep S6_db) = 75"
    using S6_heap S6_mem FindMinPrepLog_after_heap [of S6_db]
    by (cases "FindMinLogContainingOutstandingPrep S6_db")
       (simp add: MinLogNumberToKeep_def Let_def S6_db_def)
  show ?thesis using general S6_heap S6_mem keep by blast
qed

theorem C2_MinLogNumberToKeep_witness:
  "allow_2pc S6_db \<and>
   fst (MinLogNumberToKeep S6_db) =
     Min (insert (MinLogNumber S6_db)
            ({fst (FindMinLogContainingOutstandingPrep S6_db),
              FindMinPrepLogReferencedByMemTable (snd (FindMinLogContainingOutstandingPrep S6_db))}
             - {0}))"
proof -
  have on: "allow_2pc S6_db" by (simp add: S6_db_def)
  show ?thesis using on C2_MinLogNumberToKeep [of S6_db] by blast
qed

subsection \<open>FindObsoleteFiles\<close>

lemma alive_log_loop_candidates:
  "alive_log_loop ndebug rn m n alive (recycle, total_size, jc) = (r, alive', recycle', total_size', jc')
   \<Longrightarrow> full_scan_candidate_files jc' = full_scan_candidate_files jc"
proof (induction alive arbitrary: recycle total_size jc)
  case Nil
  then show ?case by simp
next
  case (Cons earliest rest)
  show ?case
  proof (cases "lf_number earliest < m")
    case False
    with Cons.prems show ?thesis by simp
  next
    case True
    show ?thesis
    proof (cases "rest = [] \<and> \<not> ndebug")
      case True
      with Cons.prems \<open>lf_number earliest < m\<close> show ?thesis
        by (auto simp: Let_def split: if_splits)
    next
      case False
      with Cons.prems \<open>lf_number earliest < m\<close> show ?thesis
        by (auto simp: Let_def split: if_splits dest!: Cons.IH)
    qed
  qed
qed

lemma reap_logs_frame:
  assumes "reap_logs ndebug db jc = (r, db', jc')"
  shows "delete_obsolete_files_last_run db' = delete_obsolete_files_last_run db"
    and "full_scan_candidate_files jc' = full_scan_candidate_files jc"
proof -
  show "delete_obsolete_files_last_run db' = delete_obsolete_files_last_run db"
    using assms
    by (auto simp: reap_logs_def Let_def split: if_splits prod.splits option.splits)
  show "full_scan_candidate_files jc' = full_scan_candidate_files jc"
    using assms
    by (auto simp: reap_logs_def Let_def split: if_splits prod.splits option.splits
        dest: alive_log_loop_candidates)
qed

lemma FindMinLogContainingOutstandingPrep_state:
  "snd (FindMinLogContainingOutstandingPrep db)
     = db\<lparr>min_log_with_prep := min_log_with_prep (snd (FindMinLogContainingOutstandingPrep db)),
          prepared_section_completed :=
            prepared_section_completed (snd (FindMinLogContainingOutstandingPrep db))\<rparr>"
  by (cases "prep_heap_loop (min_log_with_prep db) (prepared_section_completed db)")
     (simp add: FindMinLogContainingOutstandingPrep_def)

lemma MinLogNumberToKeep_snd:
  "snd (MinLogNumberToKeep db) =
     (if allow_2pc db then snd (FindMinLogContainingOutstandingPrep db) else db)"
  by (cases "FindMinLogContainingOutstandingPrep db") (simp add: MinLogNumberToKeep_def Let_def)

lemma MinLogNumberToKeep_state:
  "snd (MinLogNumberToKeep db)
     = db\<lparr>min_log_with_prep := min_log_with_prep (snd (MinLogNumberToKeep db)),
          prepared_section_completed := prepared_section_completed (snd (MinLogNumberToKeep db))\<rparr>"
proof (cases "allow_2pc db")
  case True
  then show ?thesis
    using FindMinLogContainingOutstandingPrep_state [of db] by (simp add: MinLogNumberToKeep_snd)
next
  case False
  then show ?thesis by (simp add: MinLogNumberToKeep_snd)
qed

lemma collect_state_frame:
  assumes "collect_state db jc = (db', jc')"
  shows "delete_obsolete_files_last_run db' = delete_obsolete_files_last_run db"
    and "full_scan_candidate_files jc' = full_scan_candidate_files jc"
    and "full_scan env db' = full_scan env db"
proof -
  obtain keep_log db1 where keep: "MinLogNumberToKeep db = (keep_log, db1)"
    by (cases "MinLogNumberToKeep db")
  have db1: "db1 = db\<lparr>min_log_with_prep := min_log_with_prep db1,
                        prepared_section_completed := prepared_section_completed db1\<rparr>"
    using MinLogNumberToKeep_state [of db] keep by simp
  have res: "db' = db1" "full_scan_candidate_files jc' = full_scan_candidate_files jc"
    using assms keep unfolding collect_state_def Let_def by auto
  have "delete_obsolete_files_last_run db1 = delete_obsolete_files_last_run db"
    by (subst db1) simp
  then show "delete_obsolete_files_last_run db' = delete_obsolete_files_last_run db"
    using res by simp
  have "immutable_db_options db1 = immutable_db_options db"
    by (subst db1) simp
  moreover have "dbname db1 = dbname db"
    by (subst db1) simp
  ultimately have "full_scan env db1 = full_scan env db"
    unfolding full_scan_def by simp
  then show "full_scan env db' = full_scan env db"
    using res by simp
  show "full_scan_candidate_files jc' = full_scan_candidate_files jc"
    using res by simp
qed

lemma doing_the_full_scan_frame:
  "full_scan env (snd (doing_the_full_scan env' db force nfs)) = full_scan env db"
  by (simp add: doing_the_full_scan_def full_scan_def Let_def)

text \<open>
  C10.  With \<^verbatim>\<open>disable_delete_obsolete_files_ > 0\<close>, \<^verbatim>\<open>FindObsoleteFiles\<close> returns at
  once: the database state (alive logs, recycle list, total log size, time of the last
  full scan and all the rest) and the job context are what they were.
\<close>

theorem C10_FindObsoleteFiles_disabled:
  "disable_delete_obsolete_files db > 0 \<Longrightarrow>
   FindObsoleteFiles ndebug env db job_context force no_full_scan = (None, db, job_context)"
  by (simp add: FindObsoleteFiles_def)

theorem C10_FindObsoleteFiles_disabled_witness:
  "disable_delete_obsolete_files (S5_db\<lparr>disable_delete_obsolete_files := 1\<rparr>) > 0
   \<and> FindObsoleteFiles False (S5_env 11) (S5_db\<lparr>disable_delete_obsolete_files := 1\<rparr>)
        fresh_job True False
      = (None, S5_db\<lparr>disable_delete_obsolete_files := 1\<rparr>, fresh_job)"
proof -
  have off: "disable_delete_obsolete_files (S5_db\<lparr>disable_delete_obsolete_files := 1\<rparr>) > 0"
    by simp
  show ?thesis
    using off C10_FindObsoleteFiles_disabled [OF off, of False "S5_env 11" fresh_job True False]
    by simp
qed

text \<open>
  C7, as the specification states it, fails: when exactly the period has elapsed
  (\<open>now - last_run = period\<close>, here \<open>10 - 0 = 10\<close>) the code does no full scan and leaves
  the time of the last run alone.
\<close>

theorem C7_counterexample:
  "delete_obsolete_files_period_micros S5_db
     \<le> NowMicros (S5_env 10) - delete_obsolete_files_last_run S5_db
   \<and> disable_delete_obsolete_files S5_db = 0
   \<and> delete_obsolete_files_period_micros S5_db \<noteq> 0
   \<and> fst (doing_the_full_scan (S5_env 10) S5_db False False) = False
   \<and> full_scan (S5_env 10) S5_db \<noteq> []
   \<and> full_scan_candidate_files
        (snd (snd (FindObsoleteFiles False (S5_env 10) S5_db fresh_job False False))) = []
   \<and> delete_obsolete_files_last_run
        (fst (snd (FindObsoleteFiles False (S5_env 10) S5_db fresh_job False False))) = 0"
proof -
  have dec: "doing_the_full_scan (S5_env 10) S5_db False False = (False, S5_db)"
    by (simp add: doing_the_full_scan_def S5_db_def S5_env_def)
  have scan: "full_scan (S5_env 10) S5_db \<noteq> []"
    by (simp add: full_scan_def scan_db_paths_def S5_db_def S5_env_def)
  obtain db2 jc2 where col: "collect_state S5_db fresh_job = (db2, jc2)"
    by (cases "collect_state S5_db fresh_job")
  obtain r db3 jc3 where reap: "reap_logs False db2 jc2 = (r, db3, jc3)"
    by (cases "reap_logs False db2 jc2")
  have res: "FindObsoleteFiles False (S5_env 10) S5_db fresh_job False False = (r, db3, jc3)"
    using dec col reap by (simp add: FindObsoleteFiles_def S5_db_def)
  have "full_scan_candidate_files jc3 = []"
    using reap_logs_frame(2) [OF reap] collect_state_frame(2) [OF col]
    by (simp add: fresh_job_def)
  moreover have "delete_obsolete_files_last_run db3 = 0"
    using reap_logs_frame(1) [OF reap] collect_state_frame(1) [OF col]
    by (simp add: S5_db_def)
  ultimately show ?thesis
    using dec scan res by (simp add: S5_db_def S5_env_def)
qed

lemma u64_sum_less_no_overflow:
  fixes last_run period now :: u64
  assumes "unat last_run + unat period < 2 ^ 64"
  shows "last_run + period < now \<longleftrightarrow> unat period < unat now - unat last_run"
proof -
  have "unat (last_run + period) = (unat last_run + unat period) mod 2 ^ 64"
    by (simp add: unat_word_ariths)
  then have "unat (last_run + period) = unat last_run + unat period"
    using assms by simp
  then show ?thesis
    by (auto simp: word_less_nat_alt)
qed

text \<open>
  C7, amended.  When deletion is not disabled: with \<^verbatim>\<open>no_full_scan\<close> there is no full
  scan; otherwise with \<^verbatim>\<open>force\<close> or a period of 0 there is one; otherwise there is
  one exactly when \<open>last_run + period < now\<close> (a 64-bit sum), and then \<open>last_run\<close>
  becomes \<open>now\<close>.  In every other case \<open>last_run\<close> keeps its value.  A full scan appends
  the directory listings to the job's candidates; without one the candidates are kept.
  When the sum does not overflow, \<open>last_run + period < now\<close> says that strictly more than
  the period has elapsed since the last run.
\<close>

theorem C7_full_scan_decision:
  "(fst (doing_the_full_scan env db force no_full_scan) \<longleftrightarrow>
      \<not> no_full_scan
      \<and> (force \<or> delete_obsolete_files_period_micros db = 0
         \<or> delete_obsolete_files_last_run db + delete_obsolete_files_period_micros db
             < NowMicros env))
   \<and> delete_obsolete_files_last_run (snd (doing_the_full_scan env db force no_full_scan)) =
       (if \<not> no_full_scan \<and> \<not> force \<and> delete_obsolete_files_period_micros db \<noteq> 0
           \<and> delete_obsolete_files_last_run db + delete_obsolete_files_period_micros db
               < NowMicros env
        then NowMicros env else delete_obsolete_files_last_run db)
   \<and> (disable_delete_obsolete_files db \<le> 0 \<longrightarrow>
        delete_obsolete_files_last_run
            (fst (snd (FindObsoleteFiles ndebug env db job_context force no_full_scan)))
          = delete_obsolete_files_last_run (snd (doing_the_full_scan env db force no_full_scan))
        \<and> full_scan_candidate_files
            (snd (snd (FindObsoleteFiles ndebug env db job_context force no_full_scan)))
          = full_scan_candidate_files job_context
            @ (if fst (doing_the_full_scan env db force no_full_scan)
               then full_scan env db else []))
   \<and> (unat (delete_obsolete_files_last_run db) + unat (delete_obsolete_files_period_micros db)
         < 2 ^ 64 \<longrightarrow>
       (delete_obsolete_files_last_run db + delete_obsolete_files_period_micros db < NowMicros env
        \<longleftrightarrow> unat (delete_obsolete_files_period_micros db)
              < unat (NowMicros env) - unat (delete_obsolete_files_last_run db)))"
proof -
  have d: "unat (delete_obsolete_files_last_run db) + unat (delete_obsolete_files_period_micros db)
         < 2 ^ 64 \<longrightarrow>
       (delete_obsolete_files_last_run db + delete_obsolete_files_period_micros db < NowMicros env
        \<longleftrightarrow> unat (delete_obsolete_files_period_micros db)
              < unat (NowMicros env) - unat (delete_obsolete_files_last_run db))"
    using u64_sum_less_no_overflow by blast
  have a: "fst (doing_the_full_scan env db force no_full_scan) \<longleftrightarrow>
      \<not> no_full_scan
      \<and> (force \<or> delete_obsolete_files_period_micros db = 0
         \<or> delete_obsolete_files_last_run db + delete_obsolete_files_period_micros db
             < NowMicros env)"
    by (simp add: doing_the_full_scan_def Let_def)
  have b: "delete_obsolete_files_last_run (snd (doing_the_full_scan env db force no_full_scan)) =
       (if \<not> no_full_scan \<and> \<not> force \<and> delete_obsolete_files_period_micros db \<noteq> 0
           \<and> delete_obsolete_files_last_run db + delete_obsolete_files_period_micros db
               < NowMicros env
        then NowMicros env else delete_obsolete_files_last_run db)"
    by (simp add: doing_the_full_scan_def Let_def)
  have c: "delete_obsolete_files_last_run
            (fst (snd (FindObsoleteFiles ndebug env db job_context force no_full_scan)))
          = delete_obsolete_files_last_run (snd (doing_the_full_scan env db force no_full_scan))
        \<and> full_scan_candidate_files
            (snd (snd (FindObsoleteFiles ndebug env db job_context force no_full_scan)))
          = full_scan_candidate_files job_context
            @ (if fst (doing_the_full_scan env db force no_full_scan)
               then full_scan env db else [])"
    if on: "disable_delete_obsolete_files db \<le> 0"
  proof -
    obtain scan db1 where dec: "doing_the_full_scan env db force no_full_scan = (scan, db1)"
      by (cases "doing_the_full_scan env db force no_full_scan")
    obtain db2 jc2 where col: "collect_state db1 job_context = (db2, jc2)"
      by (cases "collect_state db1 job_context")
    define jc3 where "jc3 = (if scan
                               then jc2\<lparr>full_scan_candidate_files :=
                                          full_scan_candidate_files jc2 @ full_scan env db2\<rparr>
                               else jc2)"
    obtain r db4 jc4 where reap: "reap_logs ndebug db2 jc3 = (r, db4, jc4)"
      by (cases "reap_logs ndebug db2 jc3")
    have res: "FindObsoleteFiles ndebug env db job_context force no_full_scan = (r, db4, jc4)"
      using on dec col reap by (simp add: FindObsoleteFiles_def jc3_def)
    have scan_eq: "full_scan env db2 = full_scan env db"
      using collect_state_frame(3) [OF col] doing_the_full_scan_frame [of env env db force no_full_scan]
        dec by simp
    have "delete_obsolete_files_last_run db4 = delete_obsolete_files_last_run db1"
      using reap_logs_frame(1) [OF reap] collect_state_frame(1) [OF col] by simp
    moreover have "full_scan_candidate_files jc4
        = full_scan_candidate_files job_context @ (if scan then full_scan env db else [])"
      using reap_logs_frame(2) [OF reap] collect_state_frame(2) [OF col] scan_eq
      by (simp add: jc3_def)
    ultimately show ?thesis using res dec by simp
  qed
  show ?thesis using a b c d by blast
qed

theorem C7_full_scan_decision_witness:
  "disable_delete_obsolete_files S5_db \<le> 0
   \<and> delete_obsolete_files_last_run S5_db + delete_obsolete_files_period_micros S5_db
       < NowMicros (S5_env 11)
   \<and> fst (doing_the_full_scan (S5_env 11) S5_db False False)
   \<and> delete_obsolete_files_last_run
       (fst (snd (FindObsoleteFiles False (S5_env 11) S5_db fresh_job False False))) = 11
   \<and> full_scan_candidate_files
       (snd (snd (FindObsoleteFiles False (S5_env 11) S5_db fresh_job False False)))
     = [\<lparr>file_name = ''/000100.sst'', path_id = 0\<rparr>, \<lparr>file_name = ''/000150.sst'', path_id = 0\<rparr>]"
proof -
  have on: "disable_delete_obsolete_files S5_db \<le> 0"
    by (simp add: S5_db_def)
  have late: "delete_obsolete_files_last_run S5_db + delete_obsolete_files_period_micros S5_db
       < NowMicros (S5_env 11)"
    by (simp add: S5_db_def S5_env_def)
  have scan: "full_scan (S5_env 11) S5_db
     = [\<lparr>file_name = ''/000100.sst'', path_id = 0\<rparr>, \<lparr>file_name = ''/000150.sst'', path_id = 0\<rparr>]"
    by (simp add: full_scan_def scan_db_paths_def S5_db_def S5_env_def)
  have now: "NowMicros (S5_env 11) = 11"
    by (simp add: S5_env_def)
  have nz: "delete_obsolete_files_period_micros S5_db \<noteq> 0"
    by (simp add: S5_db_def)
  show ?thesis
    using C7_full_scan_decision [of "S5_env 11" S5_db False False False fresh_job]
      on late scan now nz
    by (simp add: fresh_job_def)
qed

subsection \<open>PurgeObsoleteFiles\<close>

lemma set_insert_sorted: "set (insert_sorted lt x ys) = insert x (set ys)"
  by (induction ys) auto

lemma set_std_sort: "set (std_sort lt xs) = set xs"
  by (induction xs) (auto simp: std_sort_def set_insert_sorted)

lemma sst_live_map_iff:
  "sst_live_map state number \<noteq> None \<longleftrightarrow> number \<in> fd_number ` set (sst_live state)"
proof -
  have "(sst_live_map state number = None)
        = (number \<notin> fst ` set (map (\<lambda>fd. (fd_number fd, fd)) (rev (sst_live state))))"
    unfolding sst_live_map_def by (rule map_of_eq_None_iff)
  then show ?thesis by (simp add: image_image)
qed

lemma purge_candidate_table:
  assumes "ParseFileName fn (file_name c)
             (InfoLogPrefix fn (db_log_dir (immutable_db_options db) \<noteq> []) (dbname db))
           = Some (number, kTableFile)"
  shows "fst (purge_candidate fn db state schedule_only c) =
           (if number \<in> fd_number ` set (sst_live state) \<or> number \<ge> min_pending_output state
            then []
            else TableCacheEvict number
                 # (if schedule_only
                    then [SchedulePendingPurge
                            (TableFileName fn (db_paths (immutable_db_options db)) number (path_id c))
                            kTableFile number (path_id c) (job_id state)]
                    else [DeleteSSTFile
                            (TableFileName fn (db_paths (immutable_db_options db)) number (path_id c))
                            (path_id c),
                          LogAndNotifyTableFileDeletion (job_id state) number
                            (TableFileName fn (db_paths (immutable_db_options db)) number
                               (path_id c))]))"
  using assms sst_live_map_iff [of state number]
  by (simp add: purge_candidate_def keep_file_def DeleteObsoleteFileImpl_def Let_def)

lemma purge_candidate_table_snd:
  assumes "ParseFileName fn (file_name c)
             (InfoLogPrefix fn (db_log_dir (immutable_db_options db) \<noteq> []) (dbname db))
           = Some (number, kTableFile)"
  shows "snd (purge_candidate fn db state schedule_only c) = []"
  using assms by (simp add: purge_candidate_def Let_def)

lemma purge_candidate_table_action:
  assumes "a \<in> set (fst (purge_candidate fn db state schedule_only c))"
    and "table_action number a"
  shows "\<not> (number \<in> fd_number ` set (sst_live state) \<or> number \<ge> min_pending_output state)"
proof (cases "ParseFileName fn (file_name c)
             (InfoLogPrefix fn (db_log_dir (immutable_db_options db) \<noteq> []) (dbname db))")
  case None
  with assms show ?thesis by (simp add: purge_candidate_def Let_def)
next
  case (Some nt)
  obtain n t where nt: "nt = (n, t)" by (cases nt)
  show ?thesis
  proof (cases "t = kTableFile")
    case True
    have "n = number"
      using assms purge_candidate_table [of fn c db n state schedule_only] Some nt True
      by (auto simp: table_action_def split: if_splits)
    then show ?thesis
      using assms purge_candidate_table [of fn c db n state schedule_only] Some nt True
      by (auto split: if_splits)
  next
    case False
    then have "\<not> table_action number a"
      using assms(1) Some nt
      by (auto simp: purge_candidate_def DeleteObsoleteFileImpl_def table_action_def Let_def
          split: if_splits)
    with assms(2) show ?thesis by simp
  qed
qed

lemma info_log_loop_actions:
  "a \<in> set (fst (info_log_loop dir names i n)) \<Longrightarrow> \<exists>f. a = EnvDeleteFile f"
proof (induction n arbitrary: i)
  case 0
  then show ?case by simp
next
  case (Suc n)
  obtain acts r where rest: "info_log_loop dir names (Suc i) n = (acts, r)"
    by (cases "info_log_loop dir names (Suc i) n")
  show ?case
  proof (cases "i < length names")
    case True
    with Suc.prems rest have "a = EnvDeleteFile (dir @ ''/'' @ names ! i) \<or> a \<in> set acts"
      by simp
    then show ?thesis using Suc.IH [of "Suc i"] rest by auto
  next
    case False
    with Suc.prems show ?thesis by simp
  qed
qed

lemma delete_old_info_log_files_no_table_action:
  assumes "a \<in> set (fst (delete_old_info_log_files db olds))"
  shows "\<not> table_action number a"
proof -
  have "\<exists>f. a = EnvDeleteFile f"
    using assms info_log_loop_actions [of a]
    unfolding delete_old_info_log_files_def Let_def
    by (simp del: info_log_loop.simps split: if_splits)
  then show ?thesis by (auto simp: table_action_def)
qed

text \<open>The trace of a purge that gets past its two guards.\<close>

lemma PurgeObsoleteFiles_trace:
  assumes "ndebug \<or> HaveSomethingToDelete fn state" and "manifest_file_number state \<noteq> 0"
  shows "\<exists>tail. fst (PurgeObsoleteFiles ndebug fn db state schedule_only) =
           concat (map (\<lambda>(fd, h). case h of None \<Rightarrow> [] | Some handle \<Rightarrow> [TableCacheRelease handle])
                    (sst_delete_files state))
           @ concat (map (\<lambda>c. fst (purge_candidate fn db state schedule_only c))
                       (candidate_files fn state))
           @ fst (delete_old_info_log_files db
                    (concat (map (\<lambda>c. snd (purge_candidate fn db state schedule_only c))
                               (candidate_files fn state))))
           @ tail
         \<and> (tail = [] \<or> tail = [PurgeObsoleteWALFiles, LogFlush])"
  using assms
  by (auto simp: PurgeObsoleteFiles_def Let_def comp_def split: prod.splits option.splits)

lemma release_no_table_action:
  "a \<in> set (concat (map (\<lambda>(fd, h). case h of None \<Rightarrow> [] | Some handle \<Rightarrow> [TableCacheRelease handle]) xs))
   \<Longrightarrow> \<not> table_action number a"
  by (auto simp: table_action_def split: option.splits)

lemma purge_candidate_DeleteSSTFile:
  assumes "DeleteSSTFile f p \<in> set (fst (purge_candidate fn db state schedule_only c))"
  shows "\<exists>n. ParseFileName fn (file_name c)
               (InfoLogPrefix fn (db_log_dir (immutable_db_options db) \<noteq> []) (dbname db))
             = Some (n, kTableFile)
             \<and> \<not> (n \<in> fd_number ` set (sst_live state) \<or> n \<ge> min_pending_output state)
             \<and> f = TableFileName fn (db_paths (immutable_db_options db)) n (path_id c)
             \<and> p = path_id c"
proof (cases "ParseFileName fn (file_name c)
             (InfoLogPrefix fn (db_log_dir (immutable_db_options db) \<noteq> []) (dbname db))")
  case None
  with assms show ?thesis by (simp add: purge_candidate_def Let_def)
next
  case (Some nt)
  obtain n t where nt: "nt = (n, t)" by (cases nt)
  show ?thesis
  proof (cases "t = kTableFile")
    case True
    then show ?thesis
      using assms purge_candidate_table [of fn c db n state schedule_only] Some nt
      by (auto split: if_splits)
  next
    case False
    then have "DeleteSSTFile f p \<notin> set (fst (purge_candidate fn db state schedule_only c))"
      using Some nt
      by (auto simp: purge_candidate_def DeleteObsoleteFileImpl_def Let_def split: if_splits)
    with assms show ?thesis by simp
  qed
qed

lemma release_no_DeleteSSTFile:
  "DeleteSSTFile f p
     \<notin> set (concat (map (\<lambda>(fd, h). case h of None \<Rightarrow> [] | Some handle \<Rightarrow> [TableCacheRelease handle]) xs))"
  by (auto split: option.splits)

lemma delete_old_info_log_files_no_DeleteSSTFile:
  "DeleteSSTFile f p \<notin> set (fst (delete_old_info_log_files db olds))"
proof
  assume "DeleteSSTFile f p \<in> set (fst (delete_old_info_log_files db olds))"
  then have "\<exists>g. DeleteSSTFile f p = EnvDeleteFile g"
    using info_log_loop_actions [of "DeleteSSTFile f p"]
    unfolding delete_old_info_log_files_def Let_def
    by (simp del: info_log_loop.simps split: if_splits)
  then show False by simp
qed

text \<open>
  C1.  Let the purge get past its two guards (the assertion that there is something to
  delete, and \<^verbatim>\<open>manifest_file_number \<noteq> 0\<close>), and take a candidate that parses as a
  table file of number \<open>n\<close>.  The candidate is kept if and only if \<open>n\<close> is in the live
  set or \<open>n \<ge> min_pending_output\<close>: then the body of the loop does nothing at all for it
  (no eviction from the table cache, no scheduled purge, no deletion, no notification),
  and no action of the whole purge concerns table file \<open>n\<close>.  Otherwise the body of the
  loop evicts the file from the table cache and then schedules its purge
  (\<^verbatim>\<open>schedule_only\<close>) or deletes it and notifies the deletion, and does nothing else.
  What the body does for the candidate is a segment of what the purge does, and every
  deletion of a table file in the whole purge is the deletion of a candidate that
  parses as a table file whose number is neither live nor at or above
  \<^verbatim>\<open>min_pending_output\<close>.
\<close>

theorem C1_table_file_kept_iff:
  assumes "ndebug \<or> HaveSomethingToDelete fn state"
    and "manifest_file_number state \<noteq> 0"
    and "c \<in> set (candidate_files fn state)"
    and "ParseFileName fn (file_name c)
           (InfoLogPrefix fn (db_log_dir (immutable_db_options db) \<noteq> []) (dbname db))
         = Some (number, kTableFile)"
  shows "((number \<in> fd_number ` set (sst_live state) \<or> number \<ge> min_pending_output state)
          \<longleftrightarrow> purge_candidate fn db state schedule_only c = ([], []))
       \<and> (\<not> (number \<in> fd_number ` set (sst_live state) \<or> number \<ge> min_pending_output state)
          \<longrightarrow> purge_candidate fn db state schedule_only c =
                (TableCacheEvict number
                 # (if schedule_only
                    then [SchedulePendingPurge
                            (TableFileName fn (db_paths (immutable_db_options db)) number (path_id c))
                            kTableFile number (path_id c) (job_id state)]
                    else [DeleteSSTFile
                            (TableFileName fn (db_paths (immutable_db_options db)) number (path_id c))
                            (path_id c),
                          LogAndNotifyTableFileDeletion (job_id state) number
                            (TableFileName fn (db_paths (immutable_db_options db)) number
                               (path_id c))]),
                 []))
       \<and> (\<exists>before after.
             fst (PurgeObsoleteFiles ndebug fn db state schedule_only)
               = before @ fst (purge_candidate fn db state schedule_only c) @ after)
       \<and> ((number \<in> fd_number ` set (sst_live state) \<or> number \<ge> min_pending_output state)
          \<longleftrightarrow> (\<forall>a \<in> set (fst (PurgeObsoleteFiles ndebug fn db state schedule_only)).
                 \<not> table_action number a))
       \<and> (\<not> (number \<in> fd_number ` set (sst_live state) \<or> number \<ge> min_pending_output state)
          \<longrightarrow> TableCacheEvict number
                \<in> set (fst (PurgeObsoleteFiles ndebug fn db state schedule_only))
              \<and> (if schedule_only
                 then SchedulePendingPurge
                        (TableFileName fn (db_paths (immutable_db_options db)) number (path_id c))
                        kTableFile number (path_id c) (job_id state)
                      \<in> set (fst (PurgeObsoleteFiles ndebug fn db state schedule_only))
                 else DeleteSSTFile
                        (TableFileName fn (db_paths (immutable_db_options db)) number (path_id c))
                        (path_id c)
                      \<in> set (fst (PurgeObsoleteFiles ndebug fn db state schedule_only))
                      \<and> LogAndNotifyTableFileDeletion (job_id state) number
                          (TableFileName fn (db_paths (immutable_db_options db)) number (path_id c))
                        \<in> set (fst (PurgeObsoleteFiles ndebug fn db state schedule_only))))
       \<and> (\<forall>f p. DeleteSSTFile f p
                   \<in> set (fst (PurgeObsoleteFiles ndebug fn db state schedule_only))
              \<longrightarrow> (\<exists>c' \<in> set (candidate_files fn state). \<exists>n.
                     ParseFileName fn (file_name c')
                       (InfoLogPrefix fn (db_log_dir (immutable_db_options db) \<noteq> []) (dbname db))
                       = Some (n, kTableFile)
                     \<and> \<not> (n \<in> fd_number ` set (sst_live state)
                            \<or> n \<ge> min_pending_output state)
                     \<and> f = TableFileName fn (db_paths (immutable_db_options db)) n (path_id c')
                     \<and> p = path_id c'))"
proof -
  define keep where
    "keep \<longleftrightarrow> number \<in> fd_number ` set (sst_live state) \<or> number \<ge> min_pending_output state"
  define trace where "trace = fst (PurgeObsoleteFiles ndebug fn db state schedule_only)"
  define fname where
    "fname = TableFileName fn (db_paths (immutable_db_options db)) number (path_id c)"
  define gone where
    "gone = TableCacheEvict number
              # (if schedule_only
                 then [SchedulePendingPurge fname kTableFile number (path_id c) (job_id state)]
                 else [DeleteSSTFile fname (path_id c),
                       LogAndNotifyTableFileDeletion (job_id state) number fname])"
  obtain tail where trace_eq: "trace =
           concat (map (\<lambda>(fd, h). case h of None \<Rightarrow> [] | Some handle \<Rightarrow> [TableCacheRelease handle])
                    (sst_delete_files state))
           @ concat (map (\<lambda>c. fst (purge_candidate fn db state schedule_only c))
                       (candidate_files fn state))
           @ fst (delete_old_info_log_files db
                    (concat (map (\<lambda>c. snd (purge_candidate fn db state schedule_only c))
                               (candidate_files fn state))))
           @ tail"
    and tail: "tail = [] \<or> tail = [PurgeObsoleteWALFiles, LogFlush]"
    using PurgeObsoleteFiles_trace [OF assms(1,2), of db schedule_only] unfolding trace_def by blast
  have own: "set (fst (purge_candidate fn db state schedule_only c)) \<subseteq> set trace"
    using assms(3) unfolding trace_eq by auto
  have step_fst: "fst (purge_candidate fn db state schedule_only c) = (if keep then [] else gone)"
    using purge_candidate_table [OF assms(4), of state schedule_only]
    unfolding keep_def fname_def gone_def by simp
  have step_snd: "snd (purge_candidate fn db state schedule_only c) = []"
    by (rule purge_candidate_table_snd [OF assms(4)])
  have step: "purge_candidate fn db state schedule_only c = (if keep then ([], []) else (gone, []))"
    using step_fst step_snd by (cases "purge_candidate fn db state schedule_only c") auto
  have no_step: "keep \<longleftrightarrow> purge_candidate fn db state schedule_only c = ([], [])"
    using step by (auto simp: gone_def)
  have exact: "\<not> keep \<longrightarrow> purge_candidate fn db state schedule_only c = (gone, [])"
    using step by simp
  have segment: "\<exists>before after.
                   trace = before @ fst (purge_candidate fn db state schedule_only c) @ after"
  proof -
    from assms(3) obtain xs ys where split: "candidate_files fn state = xs @ c # ys"
      by (auto simp: in_set_conv_decomp)
    have "concat (map (\<lambda>c. fst (purge_candidate fn db state schedule_only c))
                       (candidate_files fn state))
          = concat (map (\<lambda>c. fst (purge_candidate fn db state schedule_only c)) xs)
            @ fst (purge_candidate fn db state schedule_only c)
            @ concat (map (\<lambda>c. fst (purge_candidate fn db state schedule_only c)) ys)"
      unfolding split by simp
    then have "trace =
           (concat (map (\<lambda>(fd, h). case h of None \<Rightarrow> [] | Some handle \<Rightarrow> [TableCacheRelease handle])
                    (sst_delete_files state))
            @ concat (map (\<lambda>c. fst (purge_candidate fn db state schedule_only c)) xs))
           @ fst (purge_candidate fn db state schedule_only c)
           @ (concat (map (\<lambda>c. fst (purge_candidate fn db state schedule_only c)) ys)
              @ fst (delete_old_info_log_files db
                    (concat (map (\<lambda>c. snd (purge_candidate fn db state schedule_only c))
                               (candidate_files fn state))))
              @ tail)"
      unfolding trace_eq by simp
    then show ?thesis by blast
  qed
  have kept: "\<not> table_action number a" if "keep" and "a \<in> set trace" for a
  proof -
    from that(2) consider
        "a \<in> set (concat (map (\<lambda>(fd, h). case h of None \<Rightarrow> [] | Some handle \<Rightarrow> [TableCacheRelease handle])
                    (sst_delete_files state)))"
      | c' where "c' \<in> set (candidate_files fn state)"
          "a \<in> set (fst (purge_candidate fn db state schedule_only c'))"
      | "a \<in> set (fst (delete_old_info_log_files db
                    (concat (map (\<lambda>c. snd (purge_candidate fn db state schedule_only c))
                               (candidate_files fn state)))))"
      | "a \<in> set tail"
      unfolding trace_eq by auto
    then show ?thesis
    proof cases
      case 1
      then show ?thesis by (rule release_no_table_action)
    next
      case 2
      show ?thesis
        using purge_candidate_table_action [OF 2(2), of number] that(1)
        unfolding keep_def by blast
    next
      case 3
      then show ?thesis by (rule delete_old_info_log_files_no_table_action)
    next
      case 4
      with tail show ?thesis by (auto simp: table_action_def)
    qed
  qed
  have in_trace: "TableCacheEvict number \<in> set trace
              \<and> (if schedule_only
                 then SchedulePendingPurge fname kTableFile number (path_id c) (job_id state)
                      \<in> set trace
                 else DeleteSSTFile fname (path_id c) \<in> set trace
                      \<and> LogAndNotifyTableFileDeletion (job_id state) number fname \<in> set trace)"
    if "\<not> keep"
    using own step_fst that by (cases schedule_only) (auto simp: gone_def)
  have untouched: "keep \<longleftrightarrow> (\<forall>a \<in> set trace. \<not> table_action number a)"
  proof
    assume keep
    then show "\<forall>a \<in> set trace. \<not> table_action number a" using kept by blast
  next
    assume none: "\<forall>a \<in> set trace. \<not> table_action number a"
    show keep
    proof (rule ccontr)
      assume "\<not> keep"
      then have "TableCacheEvict number \<in> set trace" using in_trace by blast
      with none show False by (auto simp: table_action_def)
    qed
  qed
  have c5: "\<not> keep \<longrightarrow>
              TableCacheEvict number \<in> set trace
              \<and> (if schedule_only
                 then SchedulePendingPurge fname kTableFile number (path_id c) (job_id state)
                      \<in> set trace
                 else DeleteSSTFile fname (path_id c) \<in> set trace
                      \<and> LogAndNotifyTableFileDeletion (job_id state) number fname \<in> set trace)"
    using in_trace by blast
  have deletions: "\<exists>c' \<in> set (candidate_files fn state). \<exists>n.
                     ParseFileName fn (file_name c')
                       (InfoLogPrefix fn (db_log_dir (immutable_db_options db) \<noteq> []) (dbname db))
                       = Some (n, kTableFile)
                     \<and> \<not> (n \<in> fd_number ` set (sst_live state)
                            \<or> n \<ge> min_pending_output state)
                     \<and> f = TableFileName fn (db_paths (immutable_db_options db)) n (path_id c')
                     \<and> p = path_id c'"
    if "DeleteSSTFile f p \<in> set trace" for f p
  proof -
    from that consider
        "DeleteSSTFile f p \<in> set (concat (map (\<lambda>(fd, h). case h of None \<Rightarrow> []
                    | Some handle \<Rightarrow> [TableCacheRelease handle]) (sst_delete_files state)))"
      | c' where "c' \<in> set (candidate_files fn state)"
          "DeleteSSTFile f p \<in> set (fst (purge_candidate fn db state schedule_only c'))"
      | "DeleteSSTFile f p \<in> set (fst (delete_old_info_log_files db
                    (concat (map (\<lambda>c. snd (purge_candidate fn db state schedule_only c))
                               (candidate_files fn state)))))"
      | "DeleteSSTFile f p \<in> set tail"
      unfolding trace_eq by auto
    then show ?thesis
    proof cases
      case 1
      then show ?thesis using release_no_DeleteSSTFile by blast
    next
      case 2
      show ?thesis
        using purge_candidate_DeleteSSTFile [OF 2(2)] 2(1) by blast
    next
      case 3
      then show ?thesis using delete_old_info_log_files_no_DeleteSSTFile by blast
    next
      case 4
      with tail show ?thesis by auto
    qed
  qed
  have accounted: "\<forall>f p. DeleteSSTFile f p \<in> set trace
              \<longrightarrow> (\<exists>c' \<in> set (candidate_files fn state). \<exists>n.
                     ParseFileName fn (file_name c')
                       (InfoLogPrefix fn (db_log_dir (immutable_db_options db) \<noteq> []) (dbname db))
                       = Some (n, kTableFile)
                     \<and> \<not> (n \<in> fd_number ` set (sst_live state)
                            \<or> n \<ge> min_pending_output state)
                     \<and> f = TableFileName fn (db_paths (immutable_db_options db)) n (path_id c')
                     \<and> p = path_id c')"
    using deletions by blast
  show ?thesis
    using no_step exact segment untouched c5 accounted
    unfolding keep_def trace_def fname_def gone_def
    by (intro conjI)
qed

lemma set_candidate_files:
  "set (candidate_files fn state) =
     set (full_scan_candidate_files state)
     \<union> (\<lambda>(fd, h). \<lparr>file_name = MakeTableFileName fn [] (fd_number fd), path_id = fd_path_id fd\<rparr>)
         ` set (sst_delete_files state)
     \<union> (\<lambda>file_num. \<lparr>file_name = LogFileName fn [] file_num, path_id = 0\<rparr>)
         ` {file_num \<in> set (log_delete_files state). file_num > 0}
     \<union> (\<lambda>filename. \<lparr>file_name = filename, path_id = 0\<rparr>) ` set (manifest_delete_files state)"
  unfolding candidate_files_def by (simp add: set_std_sort Un_assoc)

theorem C1_table_file_kept_iff_witness:
  "HaveSomethingToDelete S5_names S5_state
   \<and> manifest_file_number S5_state \<noteq> 0
   \<and> \<lparr>file_name = ''/000150.sst'', path_id = 0\<rparr> \<in> set (candidate_files S5_names S5_state)
   \<and> \<lparr>file_name = ''/000100.sst'', path_id = 0\<rparr> \<in> set (candidate_files S5_names S5_state)
   \<and> purge_candidate S5_names S5_db S5_state False \<lparr>file_name = ''/000100.sst'', path_id = 0\<rparr>
       = ([], [])
   \<and> purge_candidate S5_names S5_db S5_state False \<lparr>file_name = ''/000150.sst'', path_id = 0\<rparr>
       = ([TableCacheEvict 150, DeleteSSTFile ''/db/table'' 0,
           LogAndNotifyTableFileDeletion 7 150 ''/db/table''], [])
   \<and> TableCacheEvict 150 \<in> set (fst (PurgeObsoleteFiles False S5_names S5_db S5_state False))
   \<and> DeleteSSTFile ''/db/table'' 0
        \<in> set (fst (PurgeObsoleteFiles False S5_names S5_db S5_state False))
   \<and> TableCacheEvict 100 \<notin> set (fst (PurgeObsoleteFiles False S5_names S5_db S5_state False))"
proof -
  have some: "False \<or> HaveSomethingToDelete S5_names S5_state"
    by (simp add: S5_names_def)
  have manifest: "manifest_file_number S5_state \<noteq> 0"
    by (simp add: S5_state_def)
  have c150: "\<lparr>file_name = ''/000150.sst'', path_id = 0\<rparr> \<in> set (candidate_files S5_names S5_state)"
    unfolding set_candidate_files by (simp add: S5_state_def)
  have c100: "\<lparr>file_name = ''/000100.sst'', path_id = 0\<rparr> \<in> set (candidate_files S5_names S5_state)"
    unfolding set_candidate_files by (simp add: S5_state_def)
  have p150: "ParseFileName S5_names (file_name \<lparr>file_name = ''/000150.sst'', path_id = 0\<rparr>)
           (InfoLogPrefix S5_names (db_log_dir (immutable_db_options S5_db) \<noteq> []) (dbname S5_db))
         = Some (150, kTableFile)"
    by (simp add: S5_names_def)
  have p100: "ParseFileName S5_names (file_name \<lparr>file_name = ''/000100.sst'', path_id = 0\<rparr>)
           (InfoLogPrefix S5_names (db_log_dir (immutable_db_options S5_db) \<noteq> []) (dbname S5_db))
         = Some (100, kTableFile)"
    by (simp add: S5_names_def)
  have dead: "\<not> (150 \<in> fd_number ` set (sst_live S5_state) \<or> min_pending_output S5_state \<le> 150)"
    by (simp add: S5_state_def)
  have live: "100 \<in> fd_number ` set (sst_live S5_state) \<or> min_pending_output S5_state \<le> 100"
    by (simp add: S5_state_def)
  have name: "TableFileName S5_names (db_paths (immutable_db_options S5_db)) 150 0 = ''/db/table''"
    by (simp add: S5_names_def)
  have job: "job_id S5_state = 7"
    by (simp add: S5_state_def)
  note for_150 = C1_table_file_kept_iff [OF some manifest c150 p150, of False]
  note for_100 = C1_table_file_kept_iff [OF some manifest c100 p100, of False]
  have step150: "purge_candidate S5_names S5_db S5_state False
                   \<lparr>file_name = ''/000150.sst'', path_id = 0\<rparr>
       = ([TableCacheEvict 150, DeleteSSTFile ''/db/table'' 0,
           LogAndNotifyTableFileDeletion 7 150 ''/db/table''], [])"
    using for_150 dead name job by simp
  have gone: "TableCacheEvict 150 \<in> set (fst (PurgeObsoleteFiles False S5_names S5_db S5_state False))
     \<and> DeleteSSTFile ''/db/table'' 0
        \<in> set (fst (PurgeObsoleteFiles False S5_names S5_db S5_state False))"
    using for_150 dead name by simp
  have step100: "purge_candidate S5_names S5_db S5_state False
                   \<lparr>file_name = ''/000100.sst'', path_id = 0\<rparr> = ([], [])"
    using for_100 live by blast
  have "\<forall>a \<in> set (fst (PurgeObsoleteFiles False S5_names S5_db S5_state False)).
          \<not> table_action 100 a"
    using for_100 live by blast
  then have kept: "TableCacheEvict 100
                    \<notin> set (fst (PurgeObsoleteFiles False S5_names S5_db S5_state False))"
    by (auto simp: table_action_def)
  show ?thesis using some manifest c150 c100 step100 step150 gone kept by blast
qed

lemma info_log_loop_in_range:
  "i + n \<le> length names \<Longrightarrow>
   info_log_loop dir names i n
     = (map (\<lambda>name. EnvDeleteFile (dir @ ''/'' @ name)) (take n (drop i names)), None)"
proof (induction n arbitrary: i)
  case 0
  then show ?case by simp
next
  case (Suc n)
  then have i: "i < length names" and rest: "Suc i + n \<le> length names"
    by simp_all
  have "take (Suc n) (drop i names) = names ! i # take n (drop (Suc i) names)"
    using i by (simp add: Cons_nth_drop_Suc [symmetric])
  then show ?case
    using i Suc.IH [OF rest] by simp
qed

text \<open>
  C6, as the specification states it, fails: with one old info log and
  \<^verbatim>\<open>keep_log_file_num = 1\<close> the count does not exceed the number to keep, and the
  code deletes the file.
\<close>

theorem C6_counterexample:
  "length [''/LOG.old.1''] \<le> keep_log_file_num (immutable_db_options S5_db)
   \<and> delete_old_info_log_files S5_db [''/LOG.old.1'']
       = ([EnvDeleteFile ''/db//LOG.old.1''], None)
   \<and> EnvDeleteFile ''/db//LOG.old.1''
       \<in> set (fst (PurgeObsoleteFiles False S5_names S5_db
                     (S5_state\<lparr>full_scan_candidate_files :=
                                 [\<lparr>file_name = ''/LOG.old.1'', path_id = 0\<rparr>]\<rparr>) False))"
proof -
  have pass: "delete_old_info_log_files S5_db [''/LOG.old.1'']
       = ([EnvDeleteFile ''/db//LOG.old.1''], None)"
    by (simp add: delete_old_info_log_files_def S5_db_def)
  have cands: "candidate_files S5_names
                 (S5_state\<lparr>full_scan_candidate_files :=
                             [\<lparr>file_name = ''/LOG.old.1'', path_id = 0\<rparr>]\<rparr>)
               = [\<lparr>file_name = ''/LOG.old.1'', path_id = 0\<rparr>]"
    by (simp add: candidate_files_def std_sort_def S5_state_def)
  have step: "purge_candidate S5_names S5_db
                 (S5_state\<lparr>full_scan_candidate_files :=
                             [\<lparr>file_name = ''/LOG.old.1'', path_id = 0\<rparr>]\<rparr>) False
                 \<lparr>file_name = ''/LOG.old.1'', path_id = 0\<rparr>
              = ([], [''/LOG.old.1''])"
    by (simp add: purge_candidate_def keep_file_def S5_names_def)
  have "fst (PurgeObsoleteFiles False S5_names S5_db
                     (S5_state\<lparr>full_scan_candidate_files :=
                                 [\<lparr>file_name = ''/LOG.old.1'', path_id = 0\<rparr>]\<rparr>) False)
        = [EnvDeleteFile ''/db//LOG.old.1'', PurgeObsoleteWALFiles, LogFlush]"
    unfolding PurgeObsoleteFiles_def Let_def cands
    by (simp add: step pass) (simp add: S5_names_def S5_state_def)
  then show ?thesis
    using pass by (simp add: S5_db_def)
qed

text \<open>
  C6, amended.  With \<^verbatim>\<open>keep_log_file_num\<close> at least 1: when the number of collected
  old info logs is at least \<^verbatim>\<open>keep_log_file_num\<close>, the names are sorted ascending and
  exactly the first \<open>count - keep_log_file_num + 1\<close> of them are deleted, in that order;
  when the count is below \<^verbatim>\<open>keep_log_file_num\<close> no info log is deleted.
\<close>

theorem C6_info_log_retention:
  assumes "keep_log_file_num (immutable_db_options db) \<ge> 1"
  shows "delete_old_info_log_files db olds =
           (if length olds \<ge> keep_log_file_num (immutable_db_options db)
            then (map (\<lambda>name. EnvDeleteFile
                                ((if db_log_dir (immutable_db_options db) = [] then dbname db
                                  else db_log_dir (immutable_db_options db)) @ ''/'' @ name))
                    (take (length olds - keep_log_file_num (immutable_db_options db) + 1)
                       (sort olds)),
                  None)
            else ([], None))"
proof (cases "length olds \<ge> keep_log_file_num (immutable_db_options db)")
  case False
  then show ?thesis by (simp add: delete_old_info_log_files_def Let_def)
next
  case True
  define n where "n = Suc (length olds - keep_log_file_num (immutable_db_options db))"
  have fits: "0 + n \<le> length (sort olds)"
    using True assms by (simp add: n_def)
  have nonempty: "length olds \<noteq> 0"
    using True assms by (cases olds) simp_all
  show ?thesis
    using True nonempty info_log_loop_in_range [OF fits]
    unfolding delete_old_info_log_files_def Let_def n_def
    by (simp del: info_log_loop.simps)
qed

theorem C6_info_log_retention_witness:
  "keep_log_file_num (immutable_db_options S5_db) \<ge> 1
   \<and> delete_old_info_log_files S5_db [''LOG.old.3'', ''LOG.old.1'', ''LOG.old.2'']
       = ([EnvDeleteFile ''/db/LOG.old.1'', EnvDeleteFile ''/db/LOG.old.2'',
           EnvDeleteFile ''/db/LOG.old.3''], None)
   \<and> delete_old_info_log_files
        (S5_db\<lparr>immutable_db_options := (immutable_db_options S5_db)\<lparr>keep_log_file_num := 3\<rparr>\<rparr>)
        [''LOG.old.3'', ''LOG.old.1'', ''LOG.old.2'']
       = ([EnvDeleteFile ''/db/LOG.old.1''], None)
   \<and> delete_old_info_log_files
        (S5_db\<lparr>immutable_db_options := (immutable_db_options S5_db)\<lparr>keep_log_file_num := 4\<rparr>\<rparr>)
        [''LOG.old.3'', ''LOG.old.1'', ''LOG.old.2'']
       = ([], None)"
proof -
  have k1: "keep_log_file_num (immutable_db_options S5_db) \<ge> 1"
    by (simp add: S5_db_def)
  have k3: "keep_log_file_num (immutable_db_options
              (S5_db\<lparr>immutable_db_options := (immutable_db_options S5_db)\<lparr>keep_log_file_num := 3\<rparr>\<rparr>))
            \<ge> 1"
    by simp
  have k4: "keep_log_file_num (immutable_db_options
              (S5_db\<lparr>immutable_db_options := (immutable_db_options S5_db)\<lparr>keep_log_file_num := 4\<rparr>\<rparr>))
            \<ge> 1"
    by simp
  have sorted: "sort [''LOG.old.3'', ''LOG.old.1'', ''LOG.old.2'']
                = [''LOG.old.1'', ''LOG.old.2'', ''LOG.old.3'']"
    by simp
  show ?thesis
    using k1 C6_info_log_retention [OF k1, of "[''LOG.old.3'', ''LOG.old.1'', ''LOG.old.2'']"]
      C6_info_log_retention [OF k3, of "[''LOG.old.3'', ''LOG.old.1'', ''LOG.old.2'']"]
      C6_info_log_retention [OF k4, of "[''LOG.old.3'', ''LOG.old.1'', ''LOG.old.2'']"]
    unfolding sorted by (simp add: S5_db_def)
qed


subsection \<open>The version builder: MaybeAddFile\<close>

lemma sum_case_InrE:
  "(case r of Inl e \<Rightarrow> False | Inr x \<Rightarrow> P x) \<Longrightarrow> \<exists>x. r = Inr x \<and> P x"
  by (cases r) auto

text \<open>
  C5.  The default \<^verbatim>\<open>merge_threshold\<close> is 5.  When \<open>f\<close> is neither deleted nor
  frozen at its level and the level has new slices keyed by the number of \<open>f\<close>,
  \<^verbatim>\<open>MaybeAddFile\<close> attaches them and then adds the merge task
  \<open>(level, f.smallest, f.largest)\<close> to the super-version exactly when \<open>f\<close> has more than
  \<^verbatim>\<open>merge_threshold\<close> slices; otherwise the set of merge tasks is unchanged.
\<close>

theorem C5_MaybeAddFile_merge_task:
  "merge_threshold CompactionOptionsTwoPC_default = 5
   \<and> (fd_number (fd (cell st f)) \<notin> deleted_files (levels rep level)
        \<and> f \<notin> set (added_frozen_files (levels rep level))
        \<and> slices_for rep level (fd_number (fd (cell st f))) \<noteq> []
      \<longrightarrow> (\<exists>rep' vs' st'.
             MaybeAddFile ndebug level f (rep, vstorage, st, last_file) = Inr (rep', vs', st', Some f)
             \<and> st' = foldl (\<lambda>st fs. AddFileSlice level f fs last_file st) st
                       (slices_for rep level (fd_number (fd (cell st f))))
             \<and> merge_tasks (super_version rep') =
                 merge_tasks (super_version rep)
                 @ (if length (file_slices (cell st' f))
                         > merge_threshold (compaction_options_2pc (super_version rep))
                    then [\<lparr>task_level = level, task_smallest = smallest (cell st' f),
                           task_largest = largest (cell st' f)\<rparr>]
                    else [])))"
  by (simp add: CompactionOptionsTwoPC_default_def MaybeAddFile_def Let_def)

theorem C5_MaybeAddFile_merge_task_witness:
  "fd_number (fd (cell S4_store 1)) \<notin> deleted_files (levels S4_rep 1)
   \<and> 1 \<notin> set (added_frozen_files (levels S4_rep 1))
   \<and> slices_for S4_rep 1 (fd_number (fd (cell S4_store 1))) \<noteq> []
   \<and> (\<exists>rep' vs' st'.
        MaybeAddFile False 1 1 (S4_rep, VersionStorageInfo_new 2 False, S4_store, None)
          = Inr (rep', vs', st', Some 1)
        \<and> length (file_slices (cell st' 1)) = 3
        \<and> merge_tasks (super_version rep')
            = [\<lparr>task_level = 1, task_smallest = 1, task_largest = 100\<rparr>])"
proof -
  have pre: "fd_number (fd (cell S4_store 1)) \<notin> deleted_files (levels S4_rep 1)
        \<and> 1 \<notin> set (added_frozen_files (levels S4_rep 1))
        \<and> slices_for S4_rep 1 (fd_number (fd (cell S4_store 1))) \<noteq> []"
    by code_simp
  define st1 where "st1 = foldl (\<lambda>st fs. AddFileSlice 1 1 fs None st) S4_store
                       (slices_for S4_rep 1 (fd_number (fd (cell S4_store 1))))"
  have after: "length (file_slices (cell st1 1)) = 3 \<and> smallest (cell st1 1) = 1
               \<and> largest (cell st1 1) = 100"
    unfolding st1_def by code_simp
  have opts: "merge_threshold (compaction_options_2pc (super_version S4_rep)) = 2
              \<and> merge_tasks (super_version S4_rep) = []"
    by code_simp
  from C5_MaybeAddFile_merge_task [of S4_store 1 S4_rep 1 False "VersionStorageInfo_new 2 False" None]
       pre
  obtain rep' vs' st' where
    run: "MaybeAddFile False 1 1 (S4_rep, VersionStorageInfo_new 2 False, S4_store, None)
            = Inr (rep', vs', st', Some 1)"
    and st': "st' = st1"
    and tasks: "merge_tasks (super_version rep') =
                 merge_tasks (super_version S4_rep)
                 @ (if length (file_slices (cell st' 1))
                         > merge_threshold (compaction_options_2pc (super_version S4_rep))
                    then [\<lparr>task_level = 1, task_smallest = smallest (cell st' 1),
                           task_largest = largest (cell st' 1)\<rparr>]
                    else [])"
    unfolding st1_def by blast
  have "merge_tasks (super_version rep')
            = [\<lparr>task_level = 1, task_smallest = 1, task_largest = 100\<rparr>]"
    using tasks st' after opts by simp
  then show ?thesis
    using pre run st' after by blast
qed

subsection \<open>The version builder: the frozen set of a saved snapshot\<close>

lemma MaybeAddFile_frozen:
  assumes "MaybeAddFile ndebug level f (rep, vs, st, last_file) = Inr (rep', vs', st', last')"
  shows "set (frozen_files vs') \<subseteq> set (frozen_files vs) \<union> set (added_frozen_files (levels rep level))
         \<and> levels rep' = levels rep \<and> rep_num_levels rep' = rep_num_levels rep
         \<and> base_vstorage rep' = base_vstorage rep"
  using assms
  by (auto simp: MaybeAddFile_def AddFrozenFile_def RemoveCurrentStats_def AddFile_def Let_def
      split: if_splits sum.splits)

lemma maybe_add_all_frozen:
  assumes "maybe_add_all ndebug level fs (rep, vs, st, last_file) = Inr (rep', vs', st', last')"
  shows "set (frozen_files vs') \<subseteq> set (frozen_files vs) \<union> set (added_frozen_files (levels rep level))
         \<and> levels rep' = levels rep \<and> rep_num_levels rep' = rep_num_levels rep
         \<and> base_vstorage rep' = base_vstorage rep"
  using assms
proof (induction fs arbitrary: rep vs st last_file)
  case Nil
  then show ?case by simp
next
  case (Cons f fs)
  from Cons.prems obtain s1 where one: "MaybeAddFile ndebug level f (rep, vs, st, last_file) = Inr s1"
    and more: "maybe_add_all ndebug level fs s1 = Inr (rep', vs', st', last')"
    by (auto split: sum.splits)
  obtain rep1 vs1 st1 last1 where s1: "s1 = (rep1, vs1, st1, last1)"
    by (cases s1)
  note a = MaybeAddFile_frozen [OF one [unfolded s1]]
  note b = Cons.IH [OF more [unfolded s1]]
  show ?case using a b by auto
qed

lemma save_added_frozen:
  assumes "save_added ndebug cmp level prev_file added base_rest (rep, vs, st, last_file)
             = Inr (rest', rep', vs', st', last')"
  shows "set (frozen_files vs') \<subseteq> set (frozen_files vs) \<union> set (added_frozen_files (levels rep level))
         \<and> levels rep' = levels rep \<and> rep_num_levels rep' = rep_num_levels rep
         \<and> base_vstorage rep' = base_vstorage rep"
  using assms
proof (induction added arbitrary: prev_file base_rest rep vs st last_file)
  case Nil
  then show ?case by simp
next
  case (Cons a added)
  define bpos where "bpos = upper_bound (FileComparator cmp st) base_rest a"
  from Cons.prems obtain s1 s2 where
    one: "maybe_add_all ndebug level (take bpos base_rest) (rep, vs, st, last_file) = Inr s1"
    and two: "MaybeAddFile ndebug level a s1 = Inr s2"
    and more: "save_added ndebug cmp level (Some a) added (drop bpos base_rest) s2
                 = Inr (rest', rep', vs', st', last')"
    by (auto simp: Let_def bpos_def split: if_splits sum.splits)
  obtain rep1 vs1 st1 last1 where s1: "s1 = (rep1, vs1, st1, last1)"
    by (cases s1)
  obtain rep2 vs2 st2 last2 where s2: "s2 = (rep2, vs2, st2, last2)"
    by (cases s2)
  note a = maybe_add_all_frozen [OF one [unfolded s1]]
  note b = MaybeAddFile_frozen [OF two [unfolded s1 s2]]
  note c = Cons.IH [OF more [unfolded s2]]
  show ?case using a b c by auto
qed

lemma foldl_GetFrozenFiles_insert:
  "set (frozen_files (foldl (\<lambda>vs frozen_file. GetFrozenFiles_insert frozen_file vs) vs fz))
     = set (frozen_files vs) \<union> set fz
   \<and> files (foldl (\<lambda>vs frozen_file. GetFrozenFiles_insert frozen_file vs) vs fz) = files vs"
  by (induction fz arbitrary: vs) (auto simp: GetFrozenFiles_insert_def)

lemma save_level_frozen:
  assumes "save_level ndebug level (rep, vs, st) = Inr (rep', vs', st')"
  shows "set (frozen_files vs') \<subseteq> set (frozen_files vs) \<union> set (added_frozen_files (levels rep level))
         \<and> levels rep' = levels rep \<and> rep_num_levels rep' = rep_num_levels rep
         \<and> base_vstorage rep' = base_vstorage rep"
proof -
  define cmp where "cmp = (if level = 0 then kLevel0 else kLevelNon0)"
  define sorted_added where
    "sorted_added = std_sort (FileComparator cmp st) (map snd (added_files (levels rep level)))"
  define r1 where "r1 = save_added ndebug cmp level None sorted_added
                          (files (base_vstorage rep) level) (rep, vs, st, None)"
  have unfolded: "save_level ndebug level (rep, vs, st) =
      (case r1 of
         Inl e \<Rightarrow> Inl e
       | Inr (base_rest, s1) \<Rightarrow>
           (case maybe_add_all ndebug level base_rest s1 of
              Inl e \<Rightarrow> Inl e
            | Inr (rep2, vs2, st2, last_file) \<Rightarrow>
                Inr (rep2,
                     foldl (\<lambda>vs frozen_file. GetFrozenFiles_insert frozen_file vs) vs2
                       (added_frozen_files (levels rep2 level)),
                     st2)))"
    unfolding save_level_def Let_def r1_def sorted_added_def cmp_def by simp
  show ?thesis
  proof (cases r1)
    case (Inl e)
    with assms unfolded show ?thesis by simp
  next
    case (Inr x)
    obtain base_rest rep1 vs1 st1 last1 where x: "x = (base_rest, rep1, vs1, st1, last1)"
      by (cases x)
    note a = save_added_frozen [OF Inr [unfolded r1_def x]]
    show ?thesis
    proof (cases "maybe_add_all ndebug level base_rest (rep1, vs1, st1, last1)")
      case (Inl e)
      with assms unfolded Inr x show ?thesis by simp
    next
      case two: (Inr y)
      obtain rep2 vs2 st2 last2 where y: "y = (rep2, vs2, st2, last2)"
        by (cases y)
      note b = maybe_add_all_frozen [OF two [unfolded y]]
      have res: "rep' = rep2" "st' = st2"
        "vs' = foldl (\<lambda>vs frozen_file. GetFrozenFiles_insert frozen_file vs) vs2
                 (added_frozen_files (levels rep2 level))"
        using assms unfolded Inr x two y by auto
      note c = foldl_GetFrozenFiles_insert [of vs2 "added_frozen_files (levels rep2 level)"]
      show ?thesis using a b c res by auto
    qed
  qed
qed

lemma save_levels_frozen:
  assumes "save_levels ndebug ls (rep, vs, st) = Inr (rep', vs', st')"
  shows "set (frozen_files vs')
           \<subseteq> set (frozen_files vs) \<union> (\<Union>l \<in> set ls. set (added_frozen_files (levels rep l)))
         \<and> levels rep' = levels rep \<and> rep_num_levels rep' = rep_num_levels rep
         \<and> base_vstorage rep' = base_vstorage rep"
  using assms
proof (induction ls arbitrary: rep vs st)
  case Nil
  then show ?case by simp
next
  case (Cons l ls)
  from Cons.prems obtain s1 where one: "save_level ndebug l (rep, vs, st) = Inr s1"
    and more: "save_levels ndebug ls s1 = Inr (rep', vs', st')"
    by (auto split: sum.splits)
  obtain rep1 vs1 st1 where s1: "s1 = (rep1, vs1, st1)"
    by (cases s1)
  note a = save_level_frozen [OF one [unfolded s1]]
  note b = Cons.IH [OF more [unfolded s1]]
  show ?case using a b by auto
qed

lemma carry_frozen_Cons:
  "carry_frozen (g # fz) (vs, st) =
     carry_frozen fz
       (if slice_refs (cell st g) > 0
        then (GetFrozenFiles_insert g vs, update_cell g (\<lambda>m. m\<lparr>refs := refs m + 1\<rparr>) st)
        else (vs, st))"
  by (simp add: carry_frozen_def)

lemma carry_frozen_Nil: "carry_frozen [] s = s"
  by (simp add: carry_frozen_def)

lemma carry_frozen_result:
  assumes "carry_frozen fz (vs, st) = (vs', st')"
  shows "set (frozen_files vs') = set (frozen_files vs) \<union> {g \<in> set fz. slice_refs (cell st g) > 0}
         \<and> files vs' = files vs
         \<and> current_stats_removed vs' = current_stats_removed vs
         \<and> num_levels vs' = num_levels vs
         \<and> force_consistency_checks vs' = force_consistency_checks vs
         \<and> (\<forall>q. cell st' q = (cell st q)\<lparr>refs := refs (cell st' q)\<rparr>)"
  using assms
proof (induction fz arbitrary: vs st)
  case Nil
  then show ?case by (simp add: carry_frozen_Nil)
next
  case (Cons g fz)
  show ?case
  proof (cases "slice_refs (cell st g) > 0")
    case False
    with Cons.prems have "carry_frozen fz (vs, st) = (vs', st')"
      by (simp add: carry_frozen_Cons)
    from Cons.IH [OF this] False show ?thesis by auto
  next
    case True
    define vs1 where "vs1 = GetFrozenFiles_insert g vs"
    define st1 where "st1 = update_cell g (\<lambda>m. m\<lparr>refs := refs m + 1\<rparr>) st"
    from True Cons.prems have "carry_frozen fz (vs1, st1) = (vs', st')"
      by (simp add: carry_frozen_Cons vs1_def st1_def)
    note ih = Cons.IH [OF this]
    have same: "slice_refs (cell st1 q) = slice_refs (cell st q)" for q
      by (simp add: st1_def update_cell_def)
    have cells: "cell st1 q = (cell st q)\<lparr>refs := refs (cell st1 q)\<rparr>" for q
      by (simp add: st1_def update_cell_def)
    have vs1: "set (frozen_files vs1) = insert g (set (frozen_files vs))" "files vs1 = files vs"
      "current_stats_removed vs1 = current_stats_removed vs" "num_levels vs1 = num_levels vs"
      "force_consistency_checks vs1 = force_consistency_checks vs"
      by (simp_all add: vs1_def GetFrozenFiles_insert_def)
    have "\<forall>q. cell st' q = (cell st q)\<lparr>refs := refs (cell st' q)\<rparr>"
    proof
      fix q
      have "cell st' q = (cell st1 q)\<lparr>refs := refs (cell st' q)\<rparr>" using ih by blast
      also have "\<dots> = ((cell st q)\<lparr>refs := refs (cell st1 q)\<rparr>)\<lparr>refs := refs (cell st' q)\<rparr>"
        using cells [of q] by simp
      finally show "cell st' q = (cell st q)\<lparr>refs := refs (cell st' q)\<rparr>" by simp
    qed
    then show ?thesis using ih vs1 same True by auto
  qed
qed


text \<open>
  C3, as the specification states it, fails: an edit that moves the file \<open>P\<close> (with no
  slice reference) to the frozen files of level 1 gives a saved snapshot whose frozen
  set holds \<open>P\<close> with \<^verbatim>\<open>slice_refs = 0\<close>.
\<close>

theorem C3_counterexample:
  "frozen_with_slice_refs
     (apply_and_save False S4_base S4_super_version [freeze_P_edit] S4_store) = Inr [(1, 0)]"
  by code_simp

text \<open>
  C3, amended.  In a snapshot saved by \<^verbatim>\<open>SaveTo\<close>, every file of the frozen set that
  was neither in the frozen set of the target before the call nor staged by a
  move-to-frozen edit at some level (so: every file carried over from the frozen set of
  the base) has \<^verbatim>\<open>slice_refs > 0\<close>.
\<close>

theorem C3_carried_frozen_files_have_slice_refs:
  assumes "SaveTo ndebug rep vstorage st = Inr (rep', vs', st')"
  shows "\<forall>g \<in> set (frozen_files vs').
           g \<in> set (frozen_files vstorage)
           \<or> (\<exists>l < rep_num_levels rep. g \<in> set (added_frozen_files (levels rep l)))
           \<or> slice_refs (cell st' g) > 0"
proof
  fix g
  assume g: "g \<in> set (frozen_files vs')"
  from assms obtain rep1 vs1 st1 where
    lv: "save_levels ndebug [0 ..< rep_num_levels rep] (rep, vstorage, st) = Inr (rep1, vs1, st1)"
    and cf: "carry_frozen (frozen_files (base_vstorage rep)) (vs1, st1) = (vs', st')"
    unfolding SaveTo_def by (auto split: if_splits sum.splits prod.splits)
  note a = save_levels_frozen [OF lv]
  note b = carry_frozen_result [OF cf]
  from b g consider "g \<in> set (frozen_files vs1)" | "slice_refs (cell st1 g) > 0"
    by auto
  then show "g \<in> set (frozen_files vstorage)
           \<or> (\<exists>l < rep_num_levels rep. g \<in> set (added_frozen_files (levels rep l)))
           \<or> slice_refs (cell st' g) > 0"
  proof cases
    case 1
    with a have "g \<in> set (frozen_files vstorage)
                 \<or> (\<exists>l \<in> set [0 ..< rep_num_levels rep]. g \<in> set (added_frozen_files (levels rep l)))"
      by blast
    then show ?thesis by auto
  next
    case 2
    have "cell st' g = (cell st1 g)\<lparr>refs := refs (cell st' g)\<rparr>" using b by blast
    then have "slice_refs (cell st' g) = slice_refs (cell st1 g)"
      by (metis (no_types) FileMetaData.select_convs(7) FileMetaData.surjective FileMetaData.update_convs(6))
    with 2 show ?thesis by simp
  qed
qed
theorem C3_carried_frozen_files_have_slice_refs_witness:
  "\<exists>rep' vs' st'.
     SaveTo False (Rep_new frozen_base S4_super_version) (VersionStorageInfo_new 2 False)
       carried_store = Inr (rep', vs', st')
     \<and> 2 \<in> set (frozen_files vs') \<and> slice_refs (cell st' 2) > 0"
proof -
  have "case SaveTo False (Rep_new frozen_base S4_super_version) (VersionStorageInfo_new 2 False)
               carried_store of
          Inl e \<Rightarrow> False
        | Inr x \<Rightarrow> frozen_files (fst (snd x)) = [2]"
    by code_simp
  then obtain x where run: "SaveTo False (Rep_new frozen_base S4_super_version)
                     (VersionStorageInfo_new 2 False) carried_store = Inr x"
    and fz: "frozen_files (fst (snd x)) = [2]"
    using sum_case_InrE by blast
  obtain rep' vs' st' where x: "x = (rep', vs', st')"
    by (cases x)
  have mem: "2 \<in> set (frozen_files vs')"
    using fz x by simp
  have fresh: "2 \<notin> set (frozen_files (VersionStorageInfo_new 2 False))"
    by (simp add: VersionStorageInfo_new_def)
  have unstaged: "\<not> (\<exists>l < rep_num_levels (Rep_new frozen_base S4_super_version).
                      2 \<in> set (added_frozen_files (levels (Rep_new frozen_base S4_super_version) l)))"
    by (simp add: Rep_new_def)
  have "slice_refs (cell st' 2) > 0"
    using C3_carried_frozen_files_have_slice_refs [OF run [unfolded x]] mem fresh unstaged
    by blast
  then show ?thesis using run x mem by blast
qed


subsection \<open>The version builder: adding a file and deleting it again\<close>

lemma check_pair_cong:
  assumes "same_order_fields (cell st f1) (cell st' f1)"
    and "same_order_fields (cell st f2) (cell st' f2)"
  shows "check_pair st' level f1 f2 = check_pair st level f1 f2"
  using assms
  by (simp add: check_pair_def FileComparator_def NewestFirstBySeqNo_def BySmallestKey_def
      same_order_fields_def Let_def)

lemma check_adjacent_cong:
  "(\<And>x y. x \<in> set xs \<Longrightarrow> y \<in> set xs \<Longrightarrow> ok' x y = ok x y)
   \<Longrightarrow> check_adjacent ok' xs = check_adjacent ok xs"
proof (induction xs rule: induct_list012)
  case 1
  then show ?case by simp
next
  case (2 x)
  then show ?case by simp
next
  case (3 x y zs)
  have "check_adjacent ok' (y # zs) = check_adjacent ok (y # zs)"
    by (rule 3) (simp_all add: "3.prems")
  moreover have "ok' x y = ok x y"
    by (rule "3.prems") simp_all
  ultimately show ?case by simp
qed

lemma CheckConsistency_cong:
  assumes "rep_num_levels rep' = rep_num_levels rep"
    and "force_consistency_checks vs' = force_consistency_checks vs"
    and "\<forall>l < rep_num_levels rep. files vs' l = files vs l"
    and "\<forall>l < rep_num_levels rep. \<forall>q \<in> set (files vs l). same_order_fields (cell st q) (cell st' q)"
  shows "CheckConsistency ndebug rep' st' vs' = CheckConsistency ndebug rep st vs"
proof -
  have "check_adjacent (check_pair st' l) (files vs' l) = check_adjacent (check_pair st l) (files vs l)"
    if "l < rep_num_levels rep" for l
  proof -
    have "check_adjacent (check_pair st' l) (files vs l) = check_adjacent (check_pair st l) (files vs l)"
      by (rule check_adjacent_cong, rule check_pair_cong) (use assms(4) that in auto)
    then show ?thesis using assms(3) that by simp
  qed
  then show ?thesis
    unfolding CheckConsistency_def using assms(1,2) by (simp add: list_all_iff)
qed

lemma MaybeAddFile_plain:
  assumes "fd_number (fd (cell st f)) \<notin> deleted_files (levels rep level)"
    and "added_frozen_files (levels rep level) = []"
    and "added_file_slices (levels rep level) = []"
  shows "MaybeAddFile ndebug level f (rep, vs, st, last_file) = Inr (rep, AddFile level f vs, st, Some f)"
  using assms by (simp add: MaybeAddFile_def slices_for_def Let_def)

lemma maybe_add_all_plain:
  assumes "\<forall>f \<in> set fs. fd_number (fd (cell st f)) \<notin> deleted_files (levels rep level)"
    and "added_frozen_files (levels rep level) = []"
    and "added_file_slices (levels rep level) = []"
  shows "\<exists>last'. maybe_add_all ndebug level fs (rep, vs, st, last_file)
           = Inr (rep, vs\<lparr>files := (files vs)(level := files vs level @ fs)\<rparr>, st, last')"
  using assms(1)
proof (induction fs arbitrary: vs last_file)
  case Nil
  then show ?case by simp
next
  case (Cons f fs)
  have one: "MaybeAddFile ndebug level f (rep, vs, st, last_file)
               = Inr (rep, AddFile level f vs, st, Some f)"
    using Cons.prems assms(2,3) by (intro MaybeAddFile_plain) simp_all
  have tl: "\<forall>f \<in> set fs. fd_number (fd (cell st f)) \<notin> deleted_files (levels rep level)"
    using Cons.prems by simp
  from Cons.IH [OF tl, of "AddFile level f vs" "Some f"]
  obtain last' where more: "maybe_add_all ndebug level fs (rep, AddFile level f vs, st, Some f)
      = Inr (rep, (AddFile level f vs)\<lparr>files := (files (AddFile level f vs))
                    (level := files (AddFile level f vs) level @ fs)\<rparr>, st, last')"
    by blast
  have eq: "(AddFile level f vs)\<lparr>files := (files (AddFile level f vs))
                    (level := files (AddFile level f vs) level @ fs)\<rparr>
        = vs\<lparr>files := (files vs)(level := files vs level @ f # fs)\<rparr>"
    by (simp add: AddFile_def)
  have step: "maybe_add_all ndebug level (f # fs) (rep, vs, st, last_file)
                = maybe_add_all ndebug level fs (rep, AddFile level f vs, st, Some f)"
    using one by simp
  have "maybe_add_all ndebug level (f # fs) (rep, vs, st, last_file)
          = Inr (rep, vs\<lparr>files := (files vs)(level := files vs level @ f # fs)\<rparr>, st, last')"
    unfolding step more eq ..
  then show ?case by blast
qed

lemma save_level_plain:
  assumes "added_files (levels rep level) = []"
    and "added_frozen_files (levels rep level) = []"
    and "added_file_slices (levels rep level) = []"
    and "\<forall>f \<in> set (files (base_vstorage rep) level).
           fd_number (fd (cell st f)) \<notin> deleted_files (levels rep level)"
  shows "save_level ndebug level (rep, vs, st)
           = Inr (rep, vs\<lparr>files := (files vs)(level := files vs level
                                                   @ files (base_vstorage rep) level)\<rparr>, st)"
proof -
  from maybe_add_all_plain [OF assms(4,2,3), of ndebug vs None]
  obtain last' where all: "maybe_add_all ndebug level (files (base_vstorage rep) level)
      (rep, vs, st, None)
      = Inr (rep, vs\<lparr>files := (files vs)(level := files vs level
                                                   @ files (base_vstorage rep) level)\<rparr>, st, last')"
    by blast
  show ?thesis
    unfolding save_level_def Let_def
    by (simp add: assms(1,2) std_sort_def all)
qed

lemma save_levels_plain:
  assumes "\<forall>l \<in> set ls. added_files (levels rep l) = [] \<and> added_frozen_files (levels rep l) = []
             \<and> added_file_slices (levels rep l) = []
             \<and> (\<forall>f \<in> set (files (base_vstorage rep) l).
                   fd_number (fd (cell st f)) \<notin> deleted_files (levels rep l))"
    and "distinct ls"
  shows "\<exists>vs'. save_levels ndebug ls (rep, vs, st) = Inr (rep, vs', st)
           \<and> (\<forall>l. files vs' l = (if l \<in> set ls then files vs l @ files (base_vstorage rep) l
                                  else files vs l))
           \<and> frozen_files vs' = frozen_files vs
           \<and> current_stats_removed vs' = current_stats_removed vs
           \<and> num_levels vs' = num_levels vs
           \<and> force_consistency_checks vs' = force_consistency_checks vs"
  using assms
proof (induction ls arbitrary: vs)
  case Nil
  then show ?case by simp
next
  case (Cons l ls)
  define vs1 where "vs1 = vs\<lparr>files := (files vs)(l := files vs l @ files (base_vstorage rep) l)\<rparr>"
  have one: "save_level ndebug l (rep, vs, st) = Inr (rep, vs1, st)"
    unfolding vs1_def using Cons.prems(1) by (intro save_level_plain) simp_all
  from Cons.IH [of vs1] Cons.prems
  obtain vs' where more: "save_levels ndebug ls (rep, vs1, st) = Inr (rep, vs', st)"
    and fl: "\<forall>k. files vs' k = (if k \<in> set ls then files vs1 k @ files (base_vstorage rep) k
                                  else files vs1 k)"
    and rest: "frozen_files vs' = frozen_files vs1"
      "current_stats_removed vs' = current_stats_removed vs1"
      "num_levels vs' = num_levels vs1"
      "force_consistency_checks vs' = force_consistency_checks vs1"
    by auto
  have "save_levels ndebug (l # ls) (rep, vs, st) = Inr (rep, vs', st)"
    using one more by simp
  moreover have "\<forall>k. files vs' k = (if k \<in> set (l # ls)
                    then files vs k @ files (base_vstorage rep) k else files vs k)"
    using fl Cons.prems(2) by (auto simp: vs1_def)
  ultimately show ?case using rest by (auto simp: vs1_def)
qed

lemma SaveTo_plain:
  assumes plain: "\<forall>l < rep_num_levels rep. added_files (levels rep l) = []
                    \<and> added_frozen_files (levels rep l) = []
                    \<and> added_file_slices (levels rep l) = []"
    and undeleted: "\<forall>l < rep_num_levels rep. \<forall>q \<in> set (files (base_vstorage rep) l).
                       fd_number (fd (cell st q)) \<notin> deleted_files (levels rep l)"
    and chk: "CheckConsistency ndebug rep st (base_vstorage rep)"
  shows "\<exists>vs' st'.
           SaveTo ndebug rep
             (VersionStorageInfo_new n (force_consistency_checks (base_vstorage rep))) st
             = Inr (rep, vs', st')
           \<and> (\<forall>l < rep_num_levels rep. files vs' l = files (base_vstorage rep) l)
           \<and> set (frozen_files vs')
               = {g \<in> set (frozen_files (base_vstorage rep)). slice_refs (cell st g) > 0}
           \<and> current_stats_removed vs' = []
           \<and> (\<forall>q. cell st' q = (cell st q)\<lparr>refs := refs (cell st' q)\<rparr>)"
proof -
  define base where "base = base_vstorage rep"
  define vs0 where "vs0 = VersionStorageInfo_new n (force_consistency_checks base)"
  have chk0: "CheckConsistency ndebug rep st vs0"
    by (simp add: CheckConsistency_def vs0_def VersionStorageInfo_new_def list_all_iff)
  have "\<forall>l \<in> set [0 ..< rep_num_levels rep]. added_files (levels rep l) = []
             \<and> added_frozen_files (levels rep l) = []
             \<and> added_file_slices (levels rep l) = []
             \<and> (\<forall>f \<in> set (files (base_vstorage rep) l).
                   fd_number (fd (cell st f)) \<notin> deleted_files (levels rep l))"
    using plain undeleted by simp
  from save_levels_plain [OF this, of ndebug vs0]
  obtain vs1 where lv: "save_levels ndebug [0 ..< rep_num_levels rep] (rep, vs0, st) = Inr (rep, vs1, st)"
    and fl: "\<forall>l. files vs1 l = (if l \<in> set [0 ..< rep_num_levels rep]
                                 then files vs0 l @ files (base_vstorage rep) l else files vs0 l)"
    and rest: "frozen_files vs1 = frozen_files vs0"
      "current_stats_removed vs1 = current_stats_removed vs0"
      "num_levels vs1 = num_levels vs0"
      "force_consistency_checks vs1 = force_consistency_checks vs0"
    by auto
  obtain vs2 st2 where cf: "carry_frozen (frozen_files base) (vs1, st) = (vs2, st2)"
    by (cases "carry_frozen (frozen_files base) (vs1, st)")
  note c = carry_frozen_result [OF cf]
  have files2: "\<forall>l < rep_num_levels rep. files vs2 l = files base l"
    using c fl by (simp add: vs0_def VersionStorageInfo_new_def base_def)
  have force2: "force_consistency_checks vs2 = force_consistency_checks base"
    using c rest by (simp add: vs0_def VersionStorageInfo_new_def)
  have same: "same_order_fields (cell st q) (cell st2 q)" for q
  proof -
    have "cell st2 q = (cell st q)\<lparr>refs := refs (cell st2 q)\<rparr>" using c by blast
    then show ?thesis
      unfolding same_order_fields_def
      by (metis (no_types, lifting) FileMetaData.ext_inject FileMetaData.surjective
          FileMetaData.update_convs(6))
  qed
  have chk2: "CheckConsistency ndebug rep st2 vs2"
    using CheckConsistency_cong [of rep rep vs2 base st st2 ndebug] files2 force2 same chk
    by (simp add: base_def)
  have run: "SaveTo ndebug rep vs0 st = Inr (rep, vs2, st2)"
    unfolding SaveTo_def using chk chk0 lv cf chk2 by (simp add: base_def)
  have "set (frozen_files vs2) = {g \<in> set (frozen_files base). slice_refs (cell st g) > 0}"
    using c rest by (simp add: vs0_def VersionStorageInfo_new_def)
  moreover have "current_stats_removed vs2 = []"
    using c rest by (simp add: vs0_def VersionStorageInfo_new_def)
  ultimately show ?thesis
    using run files2 c unfolding vs0_def base_def by blast
qed

lemma store_covers_base:
  assumes "store_covers st base" and "l < num_levels base" and "q \<in> set (files base l)"
  shows "q \<noteq> next_fresh st"
  using assms by (auto simp: store_covers_def list_all_iff)

lemma store_covers_frozen:
  assumes "store_covers st base" and "q \<in> set (frozen_files base)"
  shows "q \<noteq> next_fresh st"
  using assms by (auto simp: store_covers_def list_all_iff)

lemma round_trip_staging:
  assumes chk: "CheckConsistency ndebug (Rep_new base sv) st base"
    and covers: "store_covers st base"
  shows "\<exists>rep st'.
           apply_all ndebug [add_edit L f, delete_edit L (fd_number (fd f))] (Rep_new base sv, st)
             = Inr (rep, st')
           \<and> base_vstorage rep = base \<and> rep_num_levels rep = num_levels base
           \<and> super_version rep = sv
           \<and> (\<forall>l. added_files (levels rep l) = [] \<and> added_frozen_files (levels rep l) = []
                   \<and> added_file_slices (levels rep l) = []
                   \<and> deleted_files (levels rep l) \<subseteq> {fd_number (fd f)})
           \<and> (\<forall>q. q \<noteq> next_fresh st \<longrightarrow> cell st' q = cell st q)"
proof (cases "L < num_levels base")
  case True
  define n where "n = fd_number (fd f)"
  define p where "p = next_fresh st"
  define rep0 :: "'a Rep" where "rep0 = Rep_new base sv"
  define stA where "stA = snd (new_FileMetaData (f\<lparr>refs := 1\<rparr>) st)"
  define repA where "repA = update_level L
      (\<lambda>ls. ls\<lparr>deleted_files := deleted_files ls - {n},
                added_files := (n, p) # filter (\<lambda>(m, g). m \<noteq> n) (added_files ls)\<rparr>) rep0"
  have rep0: "base_vstorage rep0 = base" "rep_num_levels rep0 = num_levels base"
    "super_version rep0 = sv"
    "levels rep0 = (\<lambda>level. \<lparr>deleted_files = {}, added_files = [], added_file_slices = [],
                            added_frozen_files = []\<rparr>)"
    by (simp_all add: rep0_def Rep_new_def)
  have A: "Apply ndebug (add_edit L f) (rep0, st) = Inr (repA, stA)"
    using chk True
    by (simp add: Apply_def add_edit_def apply_moved_def apply_slices_def rep0 rep0_def [symmetric]
        new_FileMetaData_def repA_def stA_def n_def p_def Let_def)
  have repA: "base_vstorage repA = base" "rep_num_levels repA = num_levels base"
    "super_version repA = sv"
    "levels repA = (levels rep0)(L := \<lparr>deleted_files = {}, added_files = [(n, p)],
                                      added_file_slices = [], added_frozen_files = []\<rparr>)"
    by (simp_all add: repA_def update_level_def rep0)
  have cellA: "cell stA q = cell st q" if "q \<noteq> p" for q
    using that by (simp add: stA_def new_FileMetaData_def p_def)
  have chkA: "CheckConsistency ndebug repA stA base"
  proof -
    have "same_order_fields (cell st q) (cell stA q)" if "l < num_levels base" "q \<in> set (files base l)" for l q
      using cellA [of q] store_covers_base [OF covers that] by (simp add: p_def same_order_fields_def)
    then have "CheckConsistency ndebug repA stA base = CheckConsistency ndebug rep0 st base"
      by (intro CheckConsistency_cong) (simp_all add: repA rep0)
    then show ?thesis using chk by (simp add: rep0_def)
  qed
  define rep1 where "rep1 = update_level L
      (\<lambda>ls. ls\<lparr>deleted_files := insert n (deleted_files ls)\<rparr>) repA"
  define repB where "repB = update_level L
      (\<lambda>ls. ls\<lparr>added_files := filter (\<lambda>(m, g). m \<noteq> n) (added_files ls)\<rparr>) rep1"
  define stB where "stB = UnrefFile p stA"
  have rep1: "base_vstorage rep1 = base" "rep_num_levels rep1 = num_levels base"
    "super_version rep1 = sv"
    "levels rep1 = (levels rep0)(L := \<lparr>deleted_files = {n}, added_files = [(n, p)],
                                      added_file_slices = [], added_frozen_files = []\<rparr>)"
    by (simp_all add: rep1_def update_level_def repA)
  have found: "CheckConsistencyForDeletes ndebug rep1 stA n L"
    by (simp add: CheckConsistencyForDeletes_def rep1)
  have B: "Apply ndebug (delete_edit L n) (repA, stA) = Inr (repB, stB)"
    using chkA True found
    by (simp add: Apply_def delete_edit_def apply_moved_def apply_slices_def repA
        rep1_def [symmetric] rep1 repB_def stB_def Let_def)
  have repB: "base_vstorage repB = base" "rep_num_levels repB = num_levels base"
    "super_version repB = sv"
    "levels repB = (levels rep0)(L := \<lparr>deleted_files = {n}, added_files = [],
                                      added_file_slices = [], added_frozen_files = []\<rparr>)"
    by (simp_all add: repB_def update_level_def rep1)
  have cellB: "cell stB q = cell st q" if "q \<noteq> p" for q
    using that cellA [of q] by (simp add: stB_def UnrefFile_def update_cell_def Let_def)
  have run: "apply_all ndebug [add_edit L f, delete_edit L (fd_number (fd f))] (Rep_new base sv, st)
             = Inr (repB, stB)"
    using A B by (simp add: rep0_def n_def)
  have lv: "\<forall>l. added_files (levels repB l) = [] \<and> added_frozen_files (levels repB l) = []
                   \<and> added_file_slices (levels repB l) = []
                   \<and> deleted_files (levels repB l) \<subseteq> {fd_number (fd f)}"
    by (simp add: repB rep0 n_def)
  show ?thesis
    using run repB(1,2,3) lv cellB unfolding p_def by blast
next
  case False
  define n where "n = fd_number (fd f)"
  define rep0 :: "'a Rep" where "rep0 = Rep_new base sv"
  have rep0: "base_vstorage rep0 = base" "rep_num_levels rep0 = num_levels base"
    "super_version rep0 = sv" "invalid_levels rep0 = []"
    "levels rep0 = (\<lambda>level. \<lparr>deleted_files = {}, added_files = [], added_file_slices = [],
                            added_frozen_files = []\<rparr>)"
    by (simp_all add: rep0_def Rep_new_def)
  define repA where "repA = set_invalid_level L (insert n (invalid_level_set rep0 L)) rep0"
  have A: "Apply ndebug (add_edit L f) (rep0, st) = Inr (repA, st)"
    using chk False
    by (simp add: Apply_def add_edit_def apply_moved_def apply_slices_def rep0 rep0_def [symmetric]
        invalid_level_set_def repA_def n_def Let_def)
  have repA: "base_vstorage repA = base" "rep_num_levels repA = num_levels base"
    "super_version repA = sv" "levels repA = levels rep0" "invalid_level_set repA L = {n}"
    by (simp_all add: repA_def set_invalid_level_def invalid_level_set_def rep0)
  have chkA: "CheckConsistency ndebug repA st base"
  proof -
    have "CheckConsistency ndebug repA st base = CheckConsistency ndebug rep0 st base"
      by (intro CheckConsistency_cong) (simp_all add: repA rep0 same_order_fields_def)
    then show ?thesis using chk by (simp add: rep0_def)
  qed
  define repB where "repB = set_invalid_level L (invalid_level_set repA L - {n}) repA"
  have B: "Apply ndebug (delete_edit L n) (repA, st) = Inr (repB, st)"
    using chkA False
    by (simp add: Apply_def delete_edit_def apply_moved_def apply_slices_def repA repB_def Let_def)
  have repB: "base_vstorage repB = base" "rep_num_levels repB = num_levels base"
    "super_version repB = sv" "levels repB = levels rep0"
    by (simp_all add: repB_def set_invalid_level_def repA)
  have run: "apply_all ndebug [add_edit L f, delete_edit L (fd_number (fd f))] (Rep_new base sv, st)
             = Inr (repB, st)"
    using A B by (simp add: rep0_def n_def)
  have lv: "\<forall>l. added_files (levels repB l) = [] \<and> added_frozen_files (levels repB l) = []
                   \<and> added_file_slices (levels repB l) = []
                   \<and> deleted_files (levels repB l) \<subseteq> {fd_number (fd f)}"
    by (simp add: repB rep0)
  show ?thesis
    using run repB(1,2,3) lv by blast
qed

text \<open>
  C4, as the specification states it, fails: the frozen set of the base holds a file
  (number 5) with no slice reference left; after adding file 11 at level 1 and deleting
  it again, the saved snapshot has an empty frozen set.
\<close>

theorem C4_counterexample:
  "fd_number (fd file_11) = 11
   \<and> map (\<lambda>q. fd_number (fd (cell frozen_store q)))
        (files frozen_base 0 @ files frozen_base 1 @ frozen_files frozen_base) = [10, 5]
   \<and> frozen_files frozen_base = [2]
   \<and> frozen_with_slice_refs
        (apply_and_save False frozen_base S4_super_version
           [add_edit 1 file_11, delete_edit 1 11] frozen_store) = Inr []"
  by code_simp


text \<open>
  C4, amended.  Let the base pass the consistency check (or let the checks be off), let
  its pointers point to allocated metadata, and let the number of \<open>f\<close> occur at no level
  of the base.  A fresh builder that applies an edit adding \<open>f\<close> at level \<open>L\<close>, then an
  edit deleting the number of \<open>f\<close> at level \<open>L\<close>, and then saves, yields a snapshot
  whose per-level file lists are those of the base, whose frozen set is the set of the
  frozen files of the base that have \<^verbatim>\<open>slice_refs > 0\<close>, for which no statistics were
  removed, and no merge task is added.
\<close>

theorem C4_round_trip:
  assumes chk: "CheckConsistency ndebug (Rep_new base sv) st base"
    and covers: "store_covers st base"
    and fresh: "\<forall>l < num_levels base. \<forall>q \<in> set (files base l).
                  fd_number (fd (cell st q)) \<noteq> fd_number (fd f)"
  shows "\<exists>rep' vs' st'.
           apply_and_save ndebug base sv [add_edit L f, delete_edit L (fd_number (fd f))] st
             = Inr (rep', vs', st')
           \<and> (\<forall>l < num_levels base. files vs' l = files base l)
           \<and> set (frozen_files vs') = {g \<in> set (frozen_files base). slice_refs (cell st g) > 0}
           \<and> current_stats_removed vs' = []
           \<and> merge_tasks (super_version rep') = merge_tasks sv"
proof -
  from round_trip_staging [OF chk covers, of L f]
  obtain rep st1 where
    staged: "apply_all ndebug [add_edit L f, delete_edit L (fd_number (fd f))] (Rep_new base sv, st)
               = Inr (rep, st1)"
    and rep: "base_vstorage rep = base" "rep_num_levels rep = num_levels base"
      "super_version rep = sv"
    and lv: "\<forall>l. added_files (levels rep l) = [] \<and> added_frozen_files (levels rep l) = []
                 \<and> added_file_slices (levels rep l) = []
                 \<and> deleted_files (levels rep l) \<subseteq> {fd_number (fd f)}"
    and cells: "\<forall>q. q \<noteq> next_fresh st \<longrightarrow> cell st1 q = cell st q"
    by blast
  have base_cell: "cell st1 q = cell st q" if "l < num_levels base" "q \<in> set (files base l)" for l q
    using cells store_covers_base [OF covers that] by simp
  have frozen_cell: "cell st1 g = cell st g" if "g \<in> set (frozen_files base)" for g
    using cells store_covers_frozen [OF covers that] by simp
  have plain: "\<forall>l < rep_num_levels rep. added_files (levels rep l) = []
                    \<and> added_frozen_files (levels rep l) = []
                    \<and> added_file_slices (levels rep l) = []"
    using lv by simp
  have undeleted: "\<forall>l < rep_num_levels rep. \<forall>q \<in> set (files (base_vstorage rep) l).
                       fd_number (fd (cell st1 q)) \<notin> deleted_files (levels rep l)"
  proof (intro allI impI ballI)
    fix l q
    assume l: "l < rep_num_levels rep" and q: "q \<in> set (files (base_vstorage rep) l)"
    have "fd_number (fd (cell st1 q)) \<noteq> fd_number (fd f)"
      using base_cell [of l q] fresh l q rep by simp
    then show "fd_number (fd (cell st1 q)) \<notin> deleted_files (levels rep l)"
      using lv by blast
  qed
  have chk1: "CheckConsistency ndebug rep st1 (base_vstorage rep)"
  proof -
    have "CheckConsistency ndebug rep st1 base = CheckConsistency ndebug (Rep_new base sv) st base"
      by (intro CheckConsistency_cong)
         (simp_all add: rep Rep_new_def base_cell same_order_fields_def)
    then show ?thesis using chk rep by simp
  qed
  from SaveTo_plain [OF plain undeleted chk1, of "num_levels base"]
  obtain vs' st' where
    saved: "SaveTo ndebug rep
              (VersionStorageInfo_new (num_levels base) (force_consistency_checks base)) st1
              = Inr (rep, vs', st')"
    and fl: "\<forall>l < num_levels base. files vs' l = files base l"
    and fz: "set (frozen_files vs')
               = {g \<in> set (frozen_files base). slice_refs (cell st1 g) > 0}"
    and stats: "current_stats_removed vs' = []"
    unfolding rep by blast
  have run: "apply_and_save ndebug base sv [add_edit L f, delete_edit L (fd_number (fd f))] st
               = Inr (rep, vs', st')"
    unfolding apply_and_save_def using staged saved by simp
  have "set (frozen_files vs') = {g \<in> set (frozen_files base). slice_refs (cell st g) > 0}"
    using fz frozen_cell by auto
  then show ?thesis
    using run fl stats rep(3) by blast
qed

theorem C4_round_trip_witness:
  "CheckConsistency False (Rep_new frozen_base S4_super_version) carried_store frozen_base
   \<and> store_covers carried_store frozen_base
   \<and> (\<exists>rep' vs' st'.
        apply_and_save False frozen_base S4_super_version
          [add_edit 1 file_11, delete_edit 1 (fd_number (fd file_11))] carried_store
          = Inr (rep', vs', st')
        \<and> files vs' 0 = [] \<and> files vs' 1 = [1] \<and> set (frozen_files vs') = {2}
        \<and> current_stats_removed vs' = [])"
proof -
  have chk: "CheckConsistency False (Rep_new frozen_base S4_super_version) carried_store frozen_base"
    by code_simp
  have covers: "store_covers carried_store frozen_base"
    by (simp add: store_covers_def frozen_base_def S4_base_def carried_store_def frozen_store_def
        upt_conv_Cons)
  have fresh: "\<forall>l < num_levels frozen_base. \<forall>q \<in> set (files frozen_base l).
                  fd_number (fd (cell carried_store q)) \<noteq> fd_number (fd file_11)"
    by (simp add: frozen_base_def S4_base_def carried_store_def frozen_store_def file_11_def
        file_P_def)
  have base: "num_levels frozen_base = 2" "files frozen_base 0 = []" "files frozen_base 1 = [1]"
    "{g \<in> set (frozen_files frozen_base). slice_refs (cell carried_store g) > 0} = {2}"
    by (auto simp: frozen_base_def S4_base_def carried_store_def frozen_store_def)
  from C4_round_trip [OF chk covers fresh, of 1]
  obtain rep' vs' st' where
    run: "apply_and_save False frozen_base S4_super_version
          [add_edit 1 file_11, delete_edit 1 (fd_number (fd file_11))] carried_store
          = Inr (rep', vs', st')"
    and fl: "\<forall>l < num_levels frozen_base. files vs' l = files frozen_base l"
    and fz: "set (frozen_files vs')
               = {g \<in> set (frozen_files frozen_base). slice_refs (cell carried_store g) > 0}"
    and stats: "current_stats_removed vs' = []"
    by blast
  have "files vs' 0 = [] \<and> files vs' 1 = [1]"
    using fl base by simp
  then show ?thesis
    using chk covers run fz base(4) stats by blast
qed


subsection \<open>The file-slice iterator\<close>

lemma first_at_or_after_le: "first_at_or_after es t \<le> length es"
  by (induction es) auto

lemma first_at_or_after_before:
  "i < first_at_or_after es t \<Longrightarrow> fst (es ! i) < t"
proof (induction es arbitrary: i)
  case Nil
  then show ?case by simp
next
  case (Cons e es)
  then show ?case
    by (cases i) (auto simp: Compare_def split: if_splits)
qed

lemma first_at_or_after_at:
  "first_at_or_after es t < length es \<Longrightarrow> t \<le> fst (es ! first_at_or_after es t)"
  by (induction es) (auto simp: Compare_def split: if_splits)

text \<open>
  C8.  \<^verbatim>\<open>Valid()\<close> holds exactly when the wrapped iterator is valid and its key lies
  above \<^verbatim>\<open>smallest\<close> (at or above it when \<^verbatim>\<open>is_contain_smallest\<close>) and at or below
  \<^verbatim>\<open>largest\<close>.  \<^verbatim>\<open>SeekToFirst()\<close>, and with it the constructor, leaves the wrapped
  iterator on the first entry whose key is at or after \<^verbatim>\<open>smallest\<close> (every earlier
  entry is below it), one entry further when that key equals \<^verbatim>\<open>smallest\<close> and
  \<^verbatim>\<open>is_contain_smallest\<close> is false.
\<close>

theorem C8_FileSliceIterator_Valid_SeekToFirst:
  "(FileSliceIterator_Valid it \<longleftrightarrow>
      iter_Valid (file_iter it)
      \<and> (if is_contain_smallest (file_slice it)
         then slice_smallest (file_slice it) \<le> iter_key (file_iter it)
         else slice_smallest (file_slice it) < iter_key (file_iter it))
      \<and> iter_key (file_iter it) \<le> slice_largest (file_slice it))
   \<and> (let es = entries (file_iter it);
           smallest = slice_smallest (file_slice it);
           q = first_at_or_after es smallest
       in q \<le> length es
          \<and> (\<forall>i < q. fst (es ! i) < smallest)
          \<and> (q < length es \<longrightarrow> smallest \<le> fst (es ! q))
          \<and> pos (file_iter (FileSliceIterator_SeekToFirst it)) =
               (if \<not> is_contain_smallest (file_slice it) \<and> q < length es
                   \<and> fst (es ! q) = smallest
                then Suc q else q)
          \<and> entries (file_iter (FileSliceIterator_SeekToFirst it)) = es
          \<and> FileSliceIterator_new (file_slice it) (file_iter it)
              = FileSliceIterator_SeekToFirst it)"
proof -
  have valid: "FileSliceIterator_Valid it \<longleftrightarrow>
      iter_Valid (file_iter it)
      \<and> (if is_contain_smallest (file_slice it)
         then slice_smallest (file_slice it) \<le> iter_key (file_iter it)
         else slice_smallest (file_slice it) < iter_key (file_iter it))
      \<and> iter_key (file_iter it) \<le> slice_largest (file_slice it)"
    by (auto simp: FileSliceIterator_Valid_def Compare_def Let_def)
  define es where "es = entries (file_iter it)"
  define smallest where "smallest = slice_smallest (file_slice it)"
  define q where "q = first_at_or_after es smallest"
  have bound: "q \<le> length es"
    by (simp add: q_def first_at_or_after_le)
  have before: "\<forall>i < q. fst (es ! i) < smallest"
    by (simp add: q_def first_at_or_after_before)
  have at: "q < length es \<longrightarrow> smallest \<le> fst (es ! q)"
    by (simp add: q_def first_at_or_after_at)
  have seek: "pos (file_iter (FileSliceIterator_SeekToFirst it)) =
           (if \<not> is_contain_smallest (file_slice it) \<and> q < length es \<and> fst (es ! q) = smallest
            then Suc q else q)"
    by (simp add: FileSliceIterator_SeekToFirst_def iter_Seek_def iter_Valid_def iter_key_def
        iter_Next_def Compare_def Let_def es_def q_def smallest_def)
  have same: "entries (file_iter (FileSliceIterator_SeekToFirst it)) = es"
    by (simp add: FileSliceIterator_SeekToFirst_def iter_Seek_def iter_Next_def Let_def es_def)
  have new: "FileSliceIterator_new (file_slice it) (file_iter it) = FileSliceIterator_SeekToFirst it"
    by (simp add: FileSliceIterator_new_def FileSliceIterator_SeekToFirst_def Let_def)
  show ?thesis
    using valid bound before at seek same new
    unfolding es_def smallest_def q_def Let_def by blast
qed

theorem C8_FileSliceIterator_Valid_SeekToFirst_witness:
  "first_at_or_after (entries (file_iter C8_iter)) (slice_smallest (file_slice C8_iter)) = 1
   \<and> fst (entries (file_iter C8_iter) ! 0) < slice_smallest (file_slice C8_iter)
   \<and> (1::nat) < length (entries (file_iter C8_iter))
   \<and> pos (file_iter (FileSliceIterator_SeekToFirst C8_iter)) = 2
   \<and> FileSliceIterator_Valid (FileSliceIterator_SeekToFirst C8_iter)
   \<and> \<not> FileSliceIterator_Valid C8_iter"
proof -
  have q: "first_at_or_after (entries (file_iter C8_iter)) (slice_smallest (file_slice C8_iter)) = 1"
    by (simp add: C8_iter_def Compare_def)
  have len: "(1::nat) < length (entries (file_iter C8_iter))"
    by (simp add: C8_iter_def)
  have at: "fst (entries (file_iter C8_iter) ! 1) = slice_smallest (file_slice C8_iter)"
    by (simp add: C8_iter_def)
  have excl: "\<not> is_contain_smallest (file_slice C8_iter)"
    by (simp add: C8_iter_def)
  have p: "pos (file_iter (FileSliceIterator_SeekToFirst C8_iter)) = 2
           \<and> fst (entries (file_iter C8_iter) ! 0) < slice_smallest (file_slice C8_iter)"
    using C8_FileSliceIterator_Valid_SeekToFirst [of C8_iter] q len at excl
    by (simp add: Let_def)
  have es: "entries (file_iter (FileSliceIterator_SeekToFirst C8_iter)) = entries (file_iter C8_iter)"
    using C8_FileSliceIterator_Valid_SeekToFirst [of C8_iter] by (simp add: Let_def)
  have sl: "file_slice (FileSliceIterator_SeekToFirst C8_iter) = file_slice C8_iter"
    by (simp add: FileSliceIterator_SeekToFirst_def Let_def)
  have v: "FileSliceIterator_Valid (FileSliceIterator_SeekToFirst C8_iter)"
    using C8_FileSliceIterator_Valid_SeekToFirst [of "FileSliceIterator_SeekToFirst C8_iter"] p es sl
    by (simp add: iter_Valid_def iter_key_def C8_iter_def)
  have nv: "\<not> FileSliceIterator_Valid C8_iter"
    using C8_FileSliceIterator_Valid_SeekToFirst [of C8_iter]
    by (simp add: iter_Valid_def iter_key_def C8_iter_def)
  show ?thesis using q len p v nv by blast
qed

text \<open>
  C9.  \<^verbatim>\<open>status()\<close> is \<^verbatim>\<open>Status::OK()\<close> in every state of the iterator, also when
  the wrapped iterator carries an error status.
\<close>

theorem C9_FileSliceIterator_status:
  "FileSliceIterator_status it = Status_OK
   \<and> FileSliceIterator_status (it\<lparr>file_iter := (file_iter it)\<lparr>iter_status := Status_Corruption\<rparr>\<rparr>)
       = Status_OK
   \<and> iter_status (file_iter (it\<lparr>file_iter := (file_iter it)\<lparr>iter_status := Status_Corruption\<rparr>\<rparr>))
       \<noteq> Status_OK"
  by (simp add: FileSliceIterator_status_def)


end
